theory Spec2Isabelle
  imports Main "HOL-Library.Sublist"
begin

section \<open>The query document model (types.ts)\<close>

text \<open>
  The string-literal unions of \<^verbatim>\<open>types.ts\<close> are datatypes; a function per union gives
  the string each member is, since the builder splices that string into the SQL text.
\<close>

datatype Operator =
    OpEq | OpNe | OpGt | OpLt | OpGe | OpLe
  | OpLIKE | OpIN | OpNOT_IN
  | OpIS_NULL | OpIS_NOT_NULL
  | OpEXISTS | OpNOT_EXISTS

fun operatorText :: "Operator \<Rightarrow> string" where
  "operatorText OpEq = ''=''"
| "operatorText OpNe = ''!=''"
| "operatorText OpGt = ''>''"
| "operatorText OpLt = ''<''"
| "operatorText OpGe = ''>=''"
| "operatorText OpLe = ''<=''"
| "operatorText OpLIKE = ''LIKE''"
| "operatorText OpIN = ''IN''"
| "operatorText OpNOT_IN = ''NOT IN''"
| "operatorText OpIS_NULL = ''IS NULL''"
| "operatorText OpIS_NOT_NULL = ''IS NOT NULL''"
| "operatorText OpEXISTS = ''EXISTS''"
| "operatorText OpNOT_EXISTS = ''NOT EXISTS''"

datatype LogicGate = LogicAND | LogicOR

fun logicText :: "LogicGate \<Rightarrow> string" where
  "logicText LogicAND = ''AND''"
| "logicText LogicOR = ''OR''"

datatype SQLOperation = SELECT | INSERT | UPDATE | DELETE

datatype JoinType = INNER | LEFT | RIGHT | FULL_OUTER

fun joinTypeText :: "JoinType \<Rightarrow> string" where
  "joinTypeText INNER = ''INNER''"
| "joinTypeText LEFT = ''LEFT''"
| "joinTypeText RIGHT = ''RIGHT''"
| "joinTypeText FULL_OUTER = ''FULL OUTER''"

datatype Direction = ASC | DESC

fun directionText :: "Direction \<Rightarrow> string" where
  "directionText ASC = ''ASC''"
| "directionText DESC = ''DESC''"

text \<open>
  The interfaces. Field names carry the initial of their interface, because several
  interfaces share the names \<^verbatim>\<open>id\<close>, \<^verbatim>\<open>column\<close>, \<^verbatim>\<open>table\<close> and \<^verbatim>\<open>value\<close>. The optional
  \<^verbatim>\<open>subQueryId?: string\<close> is a \<open>string option\<close>.
\<close>

record Condition =
  c_id :: string
  c_column :: string
  c_operator :: Operator
  c_value :: string
  c_logic :: LogicGate
  c_subQueryId :: "string option"

record JoinClause =
  j_id :: string
  j_type :: JoinType
  j_table :: string
  j_onLeft :: string
  j_onRight :: string

record OrderByClause =
  o_id :: string
  o_column :: string
  o_direction :: Direction

record ColumnValuePair =
  p_id :: string
  p_column :: string
  p_value :: string

text \<open>
  \<^verbatim>\<open>QueryNode\<close> is recursive through \<^verbatim>\<open>subQueries: Record<string, QueryNode>\<close>, so it is
  a datatype with one selector per field. The record of children is the list of its own
  entries (key, child) in insertion order; a key is looked up with \<open>map_of\<close>.
\<close>

datatype QueryNode = QueryNode
  (n_id: string)
  (operation: SQLOperation)
  (table: string)
  (selectColumns: string)
  (pairs: "ColumnValuePair list")
  (conditions: "Condition list")
  (joins: "JoinClause list")
  (orderBy: "OrderByClause list")
  (limit: string)
  (subQueries: "(string \<times> QueryNode) list")

section \<open>JavaScript primitives used by the builder\<close>

abbreviation newline :: char where
  "newline \<equiv> CHR 0x0A"

text \<open>\<^verbatim>\<open>"  ".repeat(n)\<close>\<close>

definition repeat2 :: "nat \<Rightarrow> string" where
  "repeat2 n = concat (replicate n ''  '')"

text \<open>
  \<^verbatim>\<open>s.split("\n")\<close>: a character other than the line feed joins the first line of the
  rest. The result is never empty (\<^verbatim>\<open>"".split("\n")\<close> is \<^verbatim>\<open>[""]\<close>), so the second
  branch of the \<open>case\<close> is never taken.
\<close>

fun splitLines :: "string \<Rightarrow> string list" where
  "splitLines [] = [[]]"
| "splitLines (c # cs) =
     (if c = newline then [] # splitLines cs
      else (case splitLines cs of l # ls \<Rightarrow> (c # l) # ls | [] \<Rightarrow> [[c]]))"

text \<open>\<^verbatim>\<open>xs.join(sep)\<close>\<close>

fun joinWith :: "string \<Rightarrow> string list \<Rightarrow> string" where
  "joinWith sep [] = []"
| "joinWith sep [x] = x"
| "joinWith sep (x # y # ys) = x @ sep @ joinWith sep (y # ys)"

text \<open>
  \<^verbatim>\<open>s.trim()\<close> removes WhiteSpace and LineTerminator code units from both ends.
  A character of the model is a code unit below 256, so these are tab, line feed, vertical
  tab, form feed, carriage return, space and no-break space.
\<close>

definition isWhiteSpace :: "char \<Rightarrow> bool" where
  "isWhiteSpace c \<longleftrightarrow> c \<in> set [CHR 0x09, CHR 0x0A, CHR 0x0B, CHR 0x0C, CHR 0x0D, CHR 0x20, CHR 0xA0]"

definition trim :: "string \<Rightarrow> string" where
  "trim s = rev (dropWhile isWhiteSpace (rev (dropWhile isWhiteSpace s)))"

text \<open>
  Property access \<^verbatim>\<open>obj[key]\<close> on a plain object. An own entry gives its value. A key that
  is no own entry is looked up on \<^verbatim>\<open>Object.prototype\<close>, whose properties are functions
  (and, for \<^verbatim>\<open>__proto__\<close>, the prototype object): truthy values that are no
  \<^verbatim>\<open>QueryNode\<close>. Every other key gives \<^verbatim>\<open>undefined\<close>.
\<close>

datatype 'a Property = Undefined | Inherited | Own 'a

definition objectPrototypeKeys :: "string list" where
  "objectPrototypeKeys =
     [''constructor'', ''hasOwnProperty'', ''isPrototypeOf'', ''propertyIsEnumerable'',
      ''toLocaleString'', ''toString'', ''valueOf'', ''__proto__'',
      ''__defineGetter__'', ''__defineSetter__'', ''__lookupGetter__'', ''__lookupSetter__'']"

definition getProperty :: "(string \<times> 'a) list \<Rightarrow> string \<Rightarrow> 'a Property" where
  "getProperty obj key =
     (case map_of obj key of
        Some v \<Rightarrow> Own v
      | None \<Rightarrow> if key \<in> set objectPrototypeKeys then Inherited else Undefined)"

text \<open>The only exception the builder can raise.\<close>

datatype error = TypeError

section \<open>The SQL builder (sql-builder.ts)\<close>

text \<open>
  The depth is a natural number and strings are unbounded: the limits of the runtime
  (maximal string length, call stack) are not modelled. Indentation is
  \<^verbatim>\<open>indent = "  ".repeat(depth)\<close> and \<^verbatim>\<open>inner = "  ".repeat(depth + 1)\<close>.
\<close>

definition quoted :: "string \<Rightarrow> string" where
  "quoted v = [CHR 0x27] @ v @ [CHR 0x27]"

text \<open>\<^verbatim>\<open>buildInsert\<close> takes the node only; it has no indentation and no recursion.\<close>

definition buildInsert :: "QueryNode \<Rightarrow> string" where
  "buildInsert node =
     (if table node = [] then ''-- Please fill in the table name''
      else
        let filled = filter (\<lambda>p. p_column p \<noteq> []) (pairs node) in
        if length filled = 0 then ''-- Add at least one column''
        else
          let cols = joinWith '', '' (map p_column filled);
              vals = joinWith '', '' (map (\<lambda>p. quoted (p_value p)) filled)
          in ''INSERT INTO '' @ table node @ '' ('' @ cols @ '')'' @ [newline]
               @ ''VALUES ('' @ vals @ '');'')"

text \<open>The \<^verbatim>\<open>for (const j of node.joins)\<close> loop of \<^verbatim>\<open>buildSelect\<close>, appending to \<^verbatim>\<open>sql\<close>.\<close>

definition appendJoins :: "string \<Rightarrow> string \<Rightarrow> JoinClause list \<Rightarrow> string" where
  "appendJoins sql indent js =
     foldl (\<lambda>sql j.
        if j_table j \<noteq> [] \<and> j_onLeft j \<noteq> [] \<and> j_onRight j \<noteq> []
        then sql @ [newline] @ indent @ joinTypeText (j_type j) @ '' JOIN '' @ j_table j
               @ '' ON '' @ j_onLeft j @ '' = '' @ j_onRight j
        else sql) sql js"

text \<open>The \<^verbatim>\<open>ORDER BY\<close> and \<^verbatim>\<open>LIMIT\<close> tail of \<^verbatim>\<open>buildSelect\<close>, from \<^verbatim>\<open>sql\<close> after the WHERE clause.\<close>

definition appendOrderLimit :: "string \<Rightarrow> string \<Rightarrow> QueryNode \<Rightarrow> string" where
  "appendOrderLimit sql indent node =
     (let sql1 =
        (if length (orderBy node) > 0 then
           let cols = joinWith '', ''
                 (map (\<lambda>ob. o_column ob @ '' '' @ directionText (o_direction ob))
                    (filter (\<lambda>ob. o_column ob \<noteq> []) (orderBy node)))
           in if cols \<noteq> [] then sql @ [newline] @ indent @ ''ORDER BY '' @ cols else sql
         else sql);
          sql2 = (if limit node \<noteq> [] then sql1 @ [newline] @ indent @ ''LIMIT '' @ limit node
                  else sql1)
      in sql2 @ '';'')"

text \<open>
  \<^verbatim>\<open>subSQL.split("\n").map((l, i) => (i === 0 ? l : "  ".repeat(depth + 2) + l)).join("\n")\<close>
\<close>

definition reindent :: "nat \<Rightarrow> string \<Rightarrow> string" where
  "reindent depth subSQL =
     (case splitLines subSQL of
        [] \<Rightarrow> []
      | l # ls \<Rightarrow> joinWith [newline] (l # map (\<lambda>l. repeat2 (depth + 2) @ l) ls))"

text \<open>
  The recursive core. \<^verbatim>\<open>buildSQL\<close> dispatches on the operation; the three builders that
  take a WHERE clause call \<^verbatim>\<open>buildWhereClause\<close>, whose \<^verbatim>\<open>conditions.map\<close> callback is
  \<open>conditionClause\<close> (the clause) and \<open>whereParts\<close> (the loop with its index), and
  \<^verbatim>\<open>resolveConditionValue\<close> compiles the child at \<^verbatim>\<open>depth + 2\<close>.

  In \<^verbatim>\<open>resolveConditionValue\<close> the guard \<^verbatim>\<open>cond.subQueryId && subQueries[cond.subQueryId]\<close>
  tests truthiness: the id must be a non-empty string and the property access must give
  a truthy value. An inherited property passes the guard; \<^verbatim>\<open>buildSQL\<close> then finds no
  \<^verbatim>\<open>operation\<close> on it, no \<^verbatim>\<open>case\<close> of the \<^verbatim>\<open>switch\<close> matches and it returns
  \<^verbatim>\<open>undefined\<close>, on which \<^verbatim>\<open>subSQL.split\<close> throws a TypeError.
\<close>

function
  buildSQL :: "QueryNode \<Rightarrow> nat \<Rightarrow> error + string" and
  resolveConditionValue :: "Condition \<Rightarrow> (string \<times> QueryNode) list \<Rightarrow> nat \<Rightarrow> error + string" and
  conditionClause :: "Condition \<Rightarrow> (string \<times> QueryNode) list \<Rightarrow> nat \<Rightarrow> error + string" and
  whereParts :: "Condition list \<Rightarrow> nat \<Rightarrow> (string \<times> QueryNode) list \<Rightarrow> nat \<Rightarrow> error + string list" and
  buildWhereClause ::
    "Condition list \<Rightarrow> (string \<times> QueryNode) list \<Rightarrow> nat \<Rightarrow> string \<Rightarrow> string \<Rightarrow> error + string" and
  buildSelect :: "QueryNode \<Rightarrow> nat \<Rightarrow> string \<Rightarrow> string \<Rightarrow> error + string" and
  buildUpdate :: "QueryNode \<Rightarrow> nat \<Rightarrow> string \<Rightarrow> string \<Rightarrow> error + string" and
  buildDelete :: "QueryNode \<Rightarrow> nat \<Rightarrow> string \<Rightarrow> string \<Rightarrow> error + string"
where
  "buildSQL node depth =
     (let indent = repeat2 depth; inner = repeat2 (depth + 1) in
      case operation node of
        SELECT \<Rightarrow> buildSelect node depth indent inner
      | INSERT \<Rightarrow> Inr (buildInsert node)
      | UPDATE \<Rightarrow> buildUpdate node depth indent inner
      | DELETE \<Rightarrow> buildDelete node depth indent inner)"
| "resolveConditionValue cond subQs depth =
     (case c_subQueryId cond of
        None \<Rightarrow> Inr (quoted (c_value cond))
      | Some sid \<Rightarrow>
          if sid = [] then Inr (quoted (c_value cond))
          else
            (case getProperty subQs sid of
               Undefined \<Rightarrow> Inr (quoted (c_value cond))
             | Inherited \<Rightarrow> Inl TypeError
             | Own child \<Rightarrow>
                 (case buildSQL child (depth + 2) of
                    Inl e \<Rightarrow> Inl e
                  | Inr subSQL \<Rightarrow>
                      Inr (''('' @ [newline] @ repeat2 (depth + 2) @ reindent depth subSQL
                            @ [newline] @ repeat2 (depth + 1) @ '')''))))"
| "conditionClause c subQs depth =
     (let col = (if c_column c \<noteq> [] then c_column c else ''column'');
          isSubQuery = (case c_subQueryId c of None \<Rightarrow> False | Some sid \<Rightarrow> sid \<noteq> []);
          isNullOp = (c_operator c \<in> set [OpIS_NULL, OpIS_NOT_NULL]);
          isExistsOp = (c_operator c \<in> set [OpEXISTS, OpNOT_EXISTS])
      in
        if isExistsOp then
          (case resolveConditionValue c subQs depth of
             Inl e \<Rightarrow> Inl e
           | Inr val \<Rightarrow> Inr (operatorText (c_operator c) @ '' '' @ val))
        else if isNullOp then Inr (col @ '' '' @ operatorText (c_operator c))
        else if isSubQuery then
          (case resolveConditionValue c subQs depth of
             Inl e \<Rightarrow> Inl e
           | Inr val \<Rightarrow> Inr (col @ '' '' @ operatorText (c_operator c) @ '' '' @ val))
        else Inr (col @ '' '' @ operatorText (c_operator c) @ '' '' @ quoted (c_value c)))"
| "whereParts [] i subQs depth = Inr []"
| "whereParts (c # cs) i subQs depth =
     (case conditionClause c subQs depth of
        Inl e \<Rightarrow> Inl e
      | Inr clause \<Rightarrow>
          (case whereParts cs (i + 1) subQs depth of
             Inl e \<Rightarrow> Inl e
           | Inr rest \<Rightarrow>
               Inr ((if i = 0 then clause else logicText (c_logic c) @ '' '' @ clause) # rest)))"
| "buildWhereClause conds subQs depth indent inner =
     (if length conds = 0 then Inr []
      else
        (case whereParts conds 0 subQs depth of
           Inl e \<Rightarrow> Inl e
         | Inr parts \<Rightarrow>
             Inr ([newline] @ indent @ ''WHERE '' @ joinWith ([newline] @ inner) parts)))"
| "buildSelect node depth indent inner =
     (if table node = [] then Inr (indent @ ''-- Please fill in the table name'')
      else
        let cols = (if trim (selectColumns node) \<noteq> [] then trim (selectColumns node) else ''*'');
            sql = ''SELECT '' @ cols @ [newline] @ indent @ ''FROM '' @ table node;
            sql = appendJoins sql indent (joins node)
        in
          case buildWhereClause (conditions node) (subQueries node) depth indent inner of
            Inl e \<Rightarrow> Inl e
          | Inr wh \<Rightarrow> Inr (appendOrderLimit (sql @ wh) indent node))"
| "buildUpdate node depth indent inner =
     (if table node = [] then Inr (indent @ ''-- Please fill in the table name'')
      else
        let filled = filter (\<lambda>p. p_column p \<noteq> []) (pairs node) in
        if length filled = 0 then Inr (indent @ ''-- Add at least one SET column'')
        else
          let sets = joinWith ('','' @ [newline])
                (map (\<lambda>p. inner @ p_column p @ '' = '' @ quoted (p_value p)) filled);
              sql = ''UPDATE '' @ table node @ [newline] @ indent @ ''SET'' @ [newline] @ sets
          in
            case buildWhereClause (conditions node) (subQueries node) depth indent inner of
              Inl e \<Rightarrow> Inl e
            | Inr wh \<Rightarrow> Inr (sql @ wh @ '';''))"
| "buildDelete node depth indent inner =
     (if table node = [] then Inr (indent @ ''-- Please fill in the table name'')
      else
        let sql = ''DELETE FROM '' @ table node in
        case buildWhereClause (conditions node) (subQueries node) depth indent inner of
          Inl e \<Rightarrow> Inl e
        | Inr wh \<Rightarrow> Inr (sql @ wh @ '';''))"
  by pat_completeness auto

text \<open>
  Termination: every recursive call of \<^verbatim>\<open>buildSQL\<close> is on a child stored in the
  \<^verbatim>\<open>subQueries\<close> of the node being compiled, which is smaller than the node.
\<close>

termination
  apply (relation "inv_image (less_than <*lex*> less_than) (\<lambda>x. case x of
      Inl (Inl (Inl (node, depth))) \<Rightarrow> (2 * size node + 1, 1)
    | Inl (Inl (Inr (cond, subQs, depth))) \<Rightarrow>
        (2 * size_list (size_prod (\<lambda>_. 0) size) subQs, 1)
    | Inl (Inr (Inl (c, subQs, depth))) \<Rightarrow>
        (2 * size_list (size_prod (\<lambda>_. 0) size) subQs, 2)
    | Inl (Inr (Inr (cs, i, subQs, depth))) \<Rightarrow>
        (2 * size_list (size_prod (\<lambda>_. 0) size) subQs, 3 + length cs)
    | Inr (Inl (Inl (cs, subQs, depth, indent, inner))) \<Rightarrow>
        (2 * size_list (size_prod (\<lambda>_. 0) size) subQs, 4 + length cs)
    | Inr (Inl (Inr (node, depth, indent, inner))) \<Rightarrow> (2 * size node + 1, 0)
    | Inr (Inr (Inl (node, depth, indent, inner))) \<Rightarrow> (2 * size node + 1, 0)
    | Inr (Inr (Inr (node, depth, indent, inner))) \<Rightarrow> (2 * size node + 1, 0))")
  subgoal by (intro wf_inv_image wf_lex_prod wf_less_than)
  apply simp_all
  subgoal for cond subQs sid child
    by (induction subQs) (auto simp: getProperty_def split: option.splits if_splits)
  subgoal for node by (cases node) simp
  subgoal for node by (cases node) simp
  subgoal for node by (cases node) simp
  done

declare buildSQL.simps [simp del] resolveConditionValue.simps [simp del]
  conditionClause.simps [simp del] buildWhereClause.simps [simp del]
  buildSelect.simps [simp del] buildUpdate.simps [simp del] buildDelete.simps [simp del]

section \<open>Notions used to state the properties\<close>

text \<open>The compiled text contains \<open>t\<close>: the builder returned a string and \<open>t\<close> occurs in it.\<close>

definition outputContains :: "error + string \<Rightarrow> string \<Rightarrow> bool" where
  "outputContains r t = (case r of Inl e \<Rightarrow> False | Inr out \<Rightarrow> sublist t out)"

text \<open>The column as a clause shows it: the word \<^verbatim>\<open>column\<close> stands in for an empty one.\<close>

definition columnOrPlaceholder :: "Condition \<Rightarrow> string" where
  "columnOrPlaceholder c = (if c_column c \<noteq> [] then c_column c else ''column'')"

text \<open>
  A subquery operand: an opening parenthesis, every line of the child's text behind the
  indent of \<open>depth + 2\<close>, and the closing parenthesis behind the indent of \<open>depth + 1\<close>.
\<close>

definition wrapSubquery :: "nat \<Rightarrow> string \<Rightarrow> string" where
  "wrapSubquery depth subSQL =
     ''('' @ [newline]
       @ joinWith [newline] (map (\<lambda>l. repeat2 (depth + 2) @ l) (splitLines subSQL))
       @ [newline] @ repeat2 (depth + 1) @ '')''"

text \<open>
  The child a condition's \<^verbatim>\<open>subQueryId\<close> resolves to among the node's own entries, and a
  \<^verbatim>\<open>subQueryId\<close> that is no own entry but names a property every object inherits.
\<close>

definition attachedSubquery :: "Condition \<Rightarrow> (string \<times> QueryNode) list \<Rightarrow> QueryNode option" where
  "attachedSubquery c subQs =
     (case c_subQueryId c of
        None \<Rightarrow> None
      | Some sid \<Rightarrow> if sid = [] then None else map_of subQs sid)"

definition inheritedReference :: "Condition \<Rightarrow> (string \<times> QueryNode) list \<Rightarrow> bool" where
  "inheritedReference c subQs =
     (case c_subQueryId c of
        None \<Rightarrow> False
      | Some sid \<Rightarrow> map_of subQs sid = None \<and> sid \<in> set objectPrototypeKeys)"

text \<open>The three clause shapes of the operator partition, over a column text and an operand.\<close>

definition clauseShape :: "Operator \<Rightarrow> string \<Rightarrow> string \<Rightarrow> string" where
  "clauseShape op col operand =
     (if op = OpEXISTS \<or> op = OpNOT_EXISTS then operatorText op @ '' '' @ operand
      else if op = OpIS_NULL \<or> op = OpIS_NOT_NULL then col @ '' '' @ operatorText op
      else col @ '' '' @ operatorText op @ '' '' @ operand)"

text \<open>The line one join adds to a SELECT: nothing unless its three fields are filled.\<close>

definition joinLine :: "string \<Rightarrow> JoinClause \<Rightarrow> string" where
  "joinLine indent j =
     (if j_table j \<noteq> [] \<and> j_onLeft j \<noteq> [] \<and> j_onRight j \<noteq> []
      then [newline] @ indent @ joinTypeText (j_type j) @ '' JOIN '' @ j_table j
             @ '' ON '' @ j_onLeft j @ '' = '' @ j_onRight j
      else [])"

text \<open>
  A document without the defect of C2: in the node and in every subquery below it, no
  condition's \<^verbatim>\<open>subQueryId\<close> is an inherited reference.
\<close>

fun noInheritedReference :: "QueryNode \<Rightarrow> bool" where
  "noInheritedReference (QueryNode i op t sc ps cs js os l subQs) \<longleftrightarrow>
     list_all (\<lambda>c. \<not> inheritedReference c subQs) cs
     \<and> list_all (\<lambda>entry. noInheritedReference (snd entry)) subQs"

text \<open>
  The user's own strings that the statement of a node shows: the table, and by operation
  the column list, the fields of the complete joins, the ORDER BY columns and the limit,
  or the columns and values of the pairs with a column. The four clause keywords.
\<close>

definition renderedTexts :: "QueryNode \<Rightarrow> string list" where
  "renderedTexts node =
     (case operation node of
        SELECT \<Rightarrow>
          [selectColumns node, table node]
          @ concat (map (\<lambda>j. [j_table j, j_onLeft j, j_onRight j])
              (filter (\<lambda>j. j_table j \<noteq> [] \<and> j_onLeft j \<noteq> [] \<and> j_onRight j \<noteq> []) (joins node)))
          @ map o_column (filter (\<lambda>ob. o_column ob \<noteq> []) (orderBy node))
          @ [limit node]
      | INSERT \<Rightarrow>
          table node # concat (map (\<lambda>p. [p_column p, p_value p])
              (filter (\<lambda>p. p_column p \<noteq> []) (pairs node)))
      | UPDATE \<Rightarrow>
          table node # concat (map (\<lambda>p. [p_column p, p_value p])
              (filter (\<lambda>p. p_column p \<noteq> []) (pairs node)))
      | DELETE \<Rightarrow> [table node])"

definition clauseKeywords :: "string list" where
  "clauseKeywords = [''WHERE'', ''JOIN'', ''ORDER BY'', ''LIMIT'']"

text \<open>
  Stripping the leading whitespace of every line of a text. \<open>strippedLines\<close> is the
  notion itself. \<open>stripFrom\<close> does the same in one pass over the text, the flag saying
  whether only whitespace has been read since the last line feed, and \<open>atLineStart\<close> is
  the flag after a text; \<open>same b\<close> relates two texts that agree after stripping when both
  are read from flag \<open>b\<close>, and \<open>sameText\<close> two texts that agree from either flag.
\<close>

definition stripLeading :: "string \<Rightarrow> string" where
  "stripLeading l = dropWhile isWhiteSpace l"

definition strippedLines :: "string \<Rightarrow> string list" where
  "strippedLines s = map stripLeading (splitLines s)"

fun stripFrom :: "bool \<Rightarrow> string \<Rightarrow> string" where
  "stripFrom b [] = []"
| "stripFrom b (c # cs) =
     (if c = newline then c # stripFrom True cs
      else if b \<and> isWhiteSpace c then stripFrom True cs
      else c # stripFrom False cs)"

fun atLineStart :: "bool \<Rightarrow> string \<Rightarrow> bool" where
  "atLineStart b [] = b"
| "atLineStart b (c # cs) = atLineStart (c = newline \<or> (b \<and> isWhiteSpace c)) cs"

definition same :: "bool \<Rightarrow> string \<Rightarrow> string \<Rightarrow> bool" where
  "same b s t \<longleftrightarrow> stripFrom b s = stripFrom b t \<and> atLineStart b s = atLineStart b t"

definition sameText :: "string \<Rightarrow> string \<Rightarrow> bool" where
  "sameText s t \<longleftrightarrow> same True s t \<and> same False s t"

text \<open>
  The re-indentation of \<^verbatim>\<open>resolveConditionValue\<close> as one pass: the prefix goes in after
  every line feed.
\<close>

fun insertAfterNewlines :: "string \<Rightarrow> string \<Rightarrow> string" where
  "insertAfterNewlines p [] = []"
| "insertAfterNewlines p (c # cs) =
     (if c = newline then c # p @ insertAfterNewlines p cs else c # insertAfterNewlines p cs)"

text \<open>
  Induction hypotheses on the children of a node: their texts at two depths agree after
  stripping, and they compile.
\<close>

definition childrenAgree :: "(string \<times> QueryNode) list \<Rightarrow> bool" where
  "childrenAgree subQs \<longleftrightarrow>
     (\<forall>sid child d d'. map_of subQs sid = Some child \<longrightarrow>
        rel_sum (=) (same True) (buildSQL child d) (buildSQL child d'))"

definition childrenCompile :: "(string \<times> QueryNode) list \<Rightarrow> bool" where
  "childrenCompile subQs \<longleftrightarrow>
     (\<forall>sid child d. map_of subQs sid = Some child \<longrightarrow> (\<exists>out. buildSQL child d = Inr out))"

text \<open>
  A piece of text that does not contain the keyword and does not begin with one of its
  characters: appended to a text free of the keyword, it leaves it free.
\<close>

definition startsOutside :: "string \<Rightarrow> string \<Rightarrow> bool" where
  "startsOutside kw x \<longleftrightarrow> \<not> sublist kw x \<and> (x = [] \<or> hd x \<notin> set kw)"

subsection \<open>Example documents\<close>

text \<open>
  Scenario E of the specification: a SELECT on \<^verbatim>\<open>orders\<close> with the conditions
  \<^verbatim>\<open>status IS NULL\<close> and \<^verbatim>\<open>OR customer_id IN (SELECT id FROM vip_customers)\<close>.
\<close>

definition vipCustomers :: QueryNode where
  "vipCustomers = QueryNode ''sq1'' SELECT ''vip_customers'' ''id'' [] [] [] [] [] []"

definition customerIdInVip :: Condition where
  "customerIdInVip =
     \<lparr>c_id = ''c2'', c_column = ''customer_id'', c_operator = OpIN, c_value = [],
      c_logic = LogicOR, c_subQueryId = Some ''sq1''\<rparr>"

definition scenarioE :: QueryNode where
  "scenarioE = QueryNode ''root'' SELECT ''orders'' ''*'' []
     [\<lparr>c_id = ''c1'', c_column = ''status'', c_operator = OpIS_NULL, c_value = [],
        c_logic = LogicAND, c_subQueryId = None\<rparr>,
      customerIdInVip]
     [] [] [] [(''sq1'', vipCustomers)]"

text \<open>
  A document as the JSON import can deliver it: the condition's \<^verbatim>\<open>subQueryId\<close> is
  \<^verbatim>\<open>"constructor"\<close> and \<^verbatim>\<open>subQueries\<close> is the empty object.
\<close>

definition constructorReference :: QueryNode where
  "constructorReference = QueryNode ''root'' SELECT ''orders'' ''*'' []
     [\<lparr>c_id = ''c1'', c_column = ''customer_id'', c_operator = OpIN, c_value = ''7'',
        c_logic = LogicAND, c_subQueryId = Some ''constructor''\<rparr>]
     [] [] [] []"

text \<open>A null test with no column, and a null test whose \<^verbatim>\<open>subQueryId\<close> names no entry.\<close>

definition nullTestNoColumn :: Condition where
  "nullTestNoColumn =
     \<lparr>c_id = ''c1'', c_column = [], c_operator = OpIS_NULL, c_value = [],
      c_logic = LogicAND, c_subQueryId = None\<rparr>"

definition nullTestDangling :: Condition where
  "nullTestDangling =
     \<lparr>c_id = ''c1'', c_column = ''a'', c_operator = OpIS_NULL, c_value = ''v'',
      c_logic = LogicAND, c_subQueryId = Some ''gone''\<rparr>"

definition existsDangling :: Condition where
  "existsDangling =
     \<lparr>c_id = ''c1'', c_column = ''a'', c_operator = OpEXISTS, c_value = ''v'',
      c_logic = LogicAND, c_subQueryId = Some ''gone''\<rparr>"

text \<open>
  Two SELECTs whose \<^verbatim>\<open>selectColumns\<close> is blank: from a table whose name is two spaces, and
  from \<^verbatim>\<open>users\<close>.
\<close>

definition blankSelect :: QueryNode where
  "blankSelect = QueryNode ''n1'' SELECT ''  '' '' '' [] [] [] [] [] []"

definition blankColumnsFromUsers :: QueryNode where
  "blankColumnsFromUsers = QueryNode ''n1'' SELECT ''users'' ''  '' [] [] [] [] [] []"

text \<open>
  A SELECT on \<^verbatim>\<open>t\<close> with the condition \<^verbatim>\<open>a IN (subquery)\<close>, where the subquery compares
  \<^verbatim>\<open>b\<close> with a value of two lines, \<^verbatim>\<open>x\<close> and \<^verbatim>\<open>y\<close>.
\<close>

definition twoLineValue :: string where
  "twoLineValue = ''x'' @ [newline] @ ''y''"

definition twoLineChild :: QueryNode where
  "twoLineChild = QueryNode ''sq1'' SELECT ''u'' ''*'' []
     [\<lparr>c_id = ''c1'', c_column = ''b'', c_operator = OpEq, c_value = twoLineValue,
        c_logic = LogicAND, c_subQueryId = None\<rparr>]
     [] [] [] []"

definition twoLineParent :: QueryNode where
  "twoLineParent = QueryNode ''root'' SELECT ''t'' ''*'' []
     [\<lparr>c_id = ''c1'', c_column = ''a'', c_operator = OpIN, c_value = [],
        c_logic = LogicAND, c_subQueryId = Some ''sq1''\<rparr>]
     [] [] [] [(''sq1'', twoLineChild)]"

text \<open>
  An INSERT that carries conditions, joins, an ordering and a limit: once into a table whose
  name contains \<^verbatim>\<open>JOIN\<close>, once into \<^verbatim>\<open>users\<close>.
\<close>

definition insertIntoJoinRequests :: QueryNode where
  "insertIntoJoinRequests = QueryNode ''n1'' INSERT ''JOIN_REQUESTS'' ''*''
     [\<lparr>p_id = ''p1'', p_column = ''name'', p_value = ''Bo''\<rparr>]
     [\<lparr>c_id = ''c1'', c_column = ''id'', c_operator = OpEq, c_value = ''5'',
        c_logic = LogicAND, c_subQueryId = None\<rparr>]
     [\<lparr>j_id = ''j1'', j_type = INNER, j_table = ''teams'', j_onLeft = ''a'', j_onRight = ''b''\<rparr>]
     [\<lparr>o_id = ''o1'', o_column = ''name'', o_direction = ASC\<rparr>]
     ''10'' []"

definition insertIntoUsers :: QueryNode where
  "insertIntoUsers = QueryNode ''n1'' INSERT ''users'' ''*''
     [\<lparr>p_id = ''p1'', p_column = ''name'', p_value = ''Bo''\<rparr>]
     [\<lparr>c_id = ''c1'', c_column = ''id'', c_operator = OpEq, c_value = ''5'',
        c_logic = LogicAND, c_subQueryId = None\<rparr>]
     [\<lparr>j_id = ''j1'', j_type = INNER, j_table = ''teams'', j_onLeft = ''a'', j_onRight = ''b''\<rparr>]
     [\<lparr>o_id = ''o1'', o_column = ''name'', o_direction = ASC\<rparr>]
     ''10'' []"

text \<open>Two SELECTs without conditions: from \<^verbatim>\<open>WHEREABOUTS\<close>, and from \<^verbatim>\<open>users\<close>.\<close>

definition selectFromWhereabouts :: QueryNode where
  "selectFromWhereabouts = QueryNode ''n1'' SELECT ''WHEREABOUTS'' ''*'' [] [] [] [] [] []"

definition selectFromUsers :: QueryNode where
  "selectFromUsers = QueryNode ''n1'' SELECT ''users'' '' id, name '' [] []
     [\<lparr>j_id = ''j1'', j_type = LEFT, j_table = ''teams'', j_onLeft = ''users.team'',
        j_onRight = ''teams.id''\<rparr>]
     [\<lparr>o_id = ''o1'', o_column = ''name'', o_direction = DESC\<rparr>]
     ''10'' []"

section \<open>Evaluation and basic facts\<close>

lemmas builder_simps = buildSQL.simps buildSelect.simps buildUpdate.simps buildDelete.simps
  buildWhereClause.simps conditionClause.simps resolveConditionValue.simps buildInsert_def
  getProperty_def objectPrototypeKeys_def reindent_def repeat2_def trim_def isWhiteSpace_def
  appendJoins_def appendOrderLimit_def quoted_def outputContains_def

lemma getProperty_Own_size:
  "getProperty subQs sid = Own child \<Longrightarrow>
     size child < size_list (size_prod (\<lambda>_. 0) size) subQs"
  by (induction subQs) (auto simp: getProperty_def split: option.splits if_splits)

lemma subQueries_size: "size_list (size_prod (\<lambda>_. 0) size) (subQueries node) < size node"
  by (cases node) simp

lemma splitLines_not_Nil: "splitLines s \<noteq> []"
  by (induction s) (auto split: list.splits)

lemma joinWith_prepend: "p @ joinWith sep (l # ls) = joinWith sep ((p @ l) # ls)"
  by (cases ls) simp_all

lemma indent_reindent:
  "repeat2 (depth + 2) @ reindent depth s =
     joinWith [newline] (map (\<lambda>l. repeat2 (depth + 2) @ l) (splitLines s))"
  using splitLines_not_Nil [of s]
  by (cases "splitLines s") (simp_all add: reindent_def joinWith_prepend del: joinWith.simps)

lemma trim_whitespace_only:
  assumes "\<forall>ch\<in>set s. isWhiteSpace ch"
  shows "trim s = []"
proof -
  have h: "dropWhile isWhiteSpace s = []"
    using assms by simp
  show ?thesis
    unfolding trim_def h by simp
qed

lemma trim_Nil_iff: "trim s = [] \<longleftrightarrow> (\<forall>ch\<in>set s. isWhiteSpace ch)"
proof
  assume "trim s = []"
  then have all: "\<forall>ch\<in>set (dropWhile isWhiteSpace s). isWhiteSpace ch"
    by (simp add: trim_def)
  have "dropWhile isWhiteSpace s = []"
  proof (cases "dropWhile isWhiteSpace s")
    case Nil
    then show ?thesis .
  next
    case (Cons c cs)
    then have "\<not> isWhiteSpace c"
      using hd_dropWhile [of isWhiteSpace s] by simp
    with all Cons show ?thesis by simp
  qed
  then show "\<forall>ch\<in>set s. isWhiteSpace ch" by simp
next
  assume "\<forall>ch\<in>set s. isWhiteSpace ch"
  then show "trim s = []" by (rule trim_whitespace_only)
qed

lemma appendJoins_concat:
  "appendJoins sql indent js = sql @ concat (map (joinLine indent) js)"
proof (induction js arbitrary: sql)
  case Nil
  show ?case by (simp add: appendJoins_def)
next
  case (Cons j js)
  have "appendJoins sql indent (j # js) = appendJoins (sql @ joinLine indent j) indent js"
    by (simp add: appendJoins_def joinLine_def)
  also have "\<dots> = (sql @ joinLine indent j) @ concat (map (joinLine indent) js)"
    by (rule Cons.IH)
  finally show ?case by simp
qed

lemma appendOrderLimit_append:
  "appendOrderLimit sql indent node = sql @ appendOrderLimit [] indent node"
  by (simp add: appendOrderLimit_def Let_def)

lemma table_placeholder_not_S:
  "CHR ''S'' # rest \<noteq> repeat2 depth @ ''-- Please fill in the table name''"
  by (cases depth) (simp_all add: repeat2_def)

subsection \<open>The operand of a condition\<close>

lemma resolve_attached:
  assumes "attachedSubquery c subQs = Some child" "buildSQL child (depth + 2) = Inr subSQL"
  shows "resolveConditionValue c subQs depth = Inr (wrapSubquery depth subSQL)"
proof -
  from assms(1) obtain sid where
    sid: "c_subQueryId c = Some sid" "sid \<noteq> []" "map_of subQs sid = Some child"
    by (auto simp: attachedSubquery_def split: option.splits if_splits)
  have "resolveConditionValue c subQs depth =
      Inr (''('' @ [newline] @ (repeat2 (depth + 2) @ reindent depth subSQL)
            @ [newline] @ repeat2 (depth + 1) @ '')'')"
    using sid assms(2) by (simp add: resolveConditionValue.simps getProperty_def)
  then show ?thesis
    unfolding indent_reindent by (simp add: wrapSubquery_def)
qed

lemma resolve_unattached:
  assumes "attachedSubquery c subQs = None" "\<not> inheritedReference c subQs"
  shows "resolveConditionValue c subQs depth = Inr (quoted (c_value c))"
  using assms
  by (auto simp: resolveConditionValue.simps getProperty_def attachedSubquery_def
      inheritedReference_def split: option.splits if_splits)

lemma clause_from_operand:
  assumes "resolveConditionValue c subQs depth = Inr operand"
    and "attachedSubquery c subQs = None \<Longrightarrow> operand = quoted (c_value c)"
  shows "conditionClause c subQs depth =
           Inr (clauseShape (c_operator c) (columnOrPlaceholder c) operand)"
  using assms
  by (auto simp: conditionClause.simps clauseShape_def columnOrPlaceholder_def
      attachedSubquery_def Let_def split: option.splits)

section \<open>Placeholders (C3, C5)\<close>

lemma filter_empty_columns:
  "\<forall>p\<in>set ps. p_column p = [] \<Longrightarrow> filter (\<lambda>p. p_column p \<noteq> []) ps = []"
  by (induction ps) auto

text \<open>
  C3. A node whose table is the empty string compiles to exactly the comment
  \<^verbatim>\<open>-- Please fill in the table name\<close>, with no semicolon, whatever its other fields and
  at every depth: behind the depth indent for SELECT, UPDATE and DELETE, unindented for
  INSERT.
\<close>

theorem empty_table_placeholder:
  "table node = [] \<Longrightarrow>
     buildSQL node depth =
       Inr ((if operation node = INSERT then [] else repeat2 depth)
              @ ''-- Please fill in the table name'')"
  by (cases "operation node")
     (simp_all add: buildSQL.simps buildSelect.simps buildUpdate.simps buildDelete.simps
        buildInsert_def)

theorem empty_table_placeholder_witness:
  "table (QueryNode ''n1'' UPDATE [] ''name''
            [\<lparr>p_id = ''p1'', p_column = ''a'', p_value = ''b''\<rparr>] [] [] [] ''10'' []) = []
   \<and> buildSQL (QueryNode ''n1'' UPDATE [] ''name''
            [\<lparr>p_id = ''p1'', p_column = ''a'', p_value = ''b''\<rparr>] [] [] [] ''10'' []) 2
       = Inr ''    -- Please fill in the table name''"
  using empty_table_placeholder
    [of "QueryNode ''n1'' UPDATE [] ''name''
           [\<lparr>p_id = ''p1'', p_column = ''a'', p_value = ''b''\<rparr>] [] [] [] ''10'' []" 2]
  by (simp add: repeat2_def numeral_2_eq_2)

text \<open>
  C5, as stated, fails for an INSERT compiled at a depth above 0, as a subquery switched
  to INSERT is: \<^verbatim>\<open>buildInsert\<close> has no indent parameter, so its placeholder is not at the
  node's indent.
\<close>

theorem insert_placeholder_indent_counterexample:
  "buildSQL (QueryNode ''n1'' INSERT ''users'' ''*''
              [\<lparr>p_id = ''p1'', p_column = [], p_value = ''b''\<rparr>] [] [] [] [] []) 2
     \<noteq> Inr (repeat2 2 @ ''-- Add at least one column'')"
  by (simp add: buildSQL.simps buildInsert_def repeat2_def eval_nat_numeral)

text \<open>
  C5, amended. For a node with a non-empty table in which every pair has an empty column
  (the empty list of pairs included): an INSERT compiles to exactly
  \<^verbatim>\<open>-- Add at least one column\<close>, unindented at every depth, and an UPDATE compiles to
  exactly \<^verbatim>\<open>-- Add at least one SET column\<close> behind the depth indent.
\<close>

theorem no_filled_pair_placeholder:
  "table node \<noteq> [] \<Longrightarrow> \<forall>p\<in>set (pairs node). p_column p = [] \<Longrightarrow>
     (operation node = INSERT \<longrightarrow> buildSQL node depth = Inr ''-- Add at least one column'') \<and>
     (operation node = UPDATE \<longrightarrow>
        buildSQL node depth = Inr (repeat2 depth @ ''-- Add at least one SET column''))"
  by (simp add: buildSQL.simps buildUpdate.simps buildInsert_def filter_empty_columns)

theorem no_filled_pair_placeholder_witness:
  "table (QueryNode ''n1'' UPDATE ''users'' ''*''
            [\<lparr>p_id = ''p1'', p_column = [], p_value = ''b''\<rparr>] [] [] [] [] []) \<noteq> []
   \<and> map p_column (pairs (QueryNode ''n1'' UPDATE ''users'' ''*''
            [\<lparr>p_id = ''p1'', p_column = [], p_value = ''b''\<rparr>] [] [] [] [] [])) = [[]]
   \<and> buildSQL (QueryNode ''n1'' UPDATE ''users'' ''*''
            [\<lparr>p_id = ''p1'', p_column = [], p_value = ''b''\<rparr>] [] [] [] [] []) 1
       = Inr ''  -- Add at least one SET column''
   \<and> buildSQL (QueryNode ''n2'' INSERT ''users'' ''*'' [] [] [] [] [] []) 1
       = Inr ''-- Add at least one column''"
  using no_filled_pair_placeholder
    [of "QueryNode ''n1'' UPDATE ''users'' ''*''
           [\<lparr>p_id = ''p1'', p_column = [], p_value = ''b''\<rparr>] [] [] [] [] []" 1]
    no_filled_pair_placeholder [of "QueryNode ''n2'' INSERT ''users'' ''*'' [] [] [] [] [] []" 1]
  by (simp add: repeat2_def)

section \<open>Subquery operands (C1)\<close>

text \<open>
  C1, as stated, fails on its own example. Compiled at depth 0, scenario E does not
  contain the text the claim quotes: the continuation line \<^verbatim>\<open>OR ...\<close> is indented by one
  unit, the child's first line by two, and the closing parenthesis by one.
\<close>

theorem scenarioE_counterexample:
  "\<not> outputContains (buildSQL scenarioE 0)
     (''WHERE status IS NULL'' @ [newline] @ ''OR customer_id IN ('' @ [newline]
        @ ''  SELECT id'' @ [newline] @ ''  FROM vip_customers'' @ [newline] @ '');'')"
  by (simp add: scenarioE_def customerIdInVip_def vipCustomers_def builder_simps
        eval_nat_numeral sublist_Cons_right prefix_Cons)

text \<open>
  C1, amended. For a condition with operator IN whose \<^verbatim>\<open>subQueryId\<close> is an own entry of
  \<^verbatim>\<open>subQueries\<close>, and whose child compiles at \<open>depth + 2\<close> to \<open>subSQL\<close>, the clause is the
  column (the word \<^verbatim>\<open>column\<close> for an empty one), \<^verbatim>\<open> IN (\<close>, a line feed, every line of
  \<open>subSQL\<close> behind the indent of \<open>depth + 2\<close>, a line feed, and \<^verbatim>\<open>)\<close> behind the indent of
  \<open>depth + 1\<close>. In particular scenario E at depth 0 is \<^verbatim>\<open>SELECT *\<close>, \<^verbatim>\<open>FROM orders\<close>,
  \<^verbatim>\<open>WHERE status IS NULL\<close>, then \<^verbatim>\<open>  OR customer_id IN (\<close>, the lines of the child's text
  (which begins with the line \<^verbatim>\<open>SELECT id\<close>) each behind four spaces, and \<^verbatim>\<open>  );\<close>.
\<close>

theorem in_subquery_clause:
  "(c_operator c = OpIN \<and> c_subQueryId c = Some sid \<and> sid \<noteq> [] \<and>
      map_of subQs sid = Some child \<and> buildSQL child (depth + 2) = Inr subSQL \<longrightarrow>
      conditionClause c subQs depth =
        Inr (columnOrPlaceholder c @ '' IN ('' @ [newline]
             @ joinWith [newline] (map (\<lambda>l. repeat2 (depth + 2) @ l) (splitLines subSQL))
             @ [newline] @ repeat2 (depth + 1) @ '')''))
   \<and> (\<exists>subSQL. buildSQL vipCustomers 2 = Inr subSQL
          \<and> prefix (''SELECT id'' @ [newline]) subSQL
          \<and> buildSQL scenarioE 0 =
              Inr (''SELECT *'' @ [newline] @ ''FROM orders'' @ [newline]
                   @ ''WHERE status IS NULL'' @ [newline]
                   @ ''  OR customer_id IN ('' @ [newline]
                   @ joinWith [newline] (map (\<lambda>l. ''    '' @ l) (splitLines subSQL))
                   @ [newline] @ ''  );''))"
proof (intro conjI impI)
  assume a: "c_operator c = OpIN \<and> c_subQueryId c = Some sid \<and> sid \<noteq> [] \<and>
      map_of subQs sid = Some child \<and> buildSQL child (depth + 2) = Inr subSQL"
  then have "attachedSubquery c subQs = Some child"
    by (simp add: attachedSubquery_def)
  with a have "resolveConditionValue c subQs depth = Inr (wrapSubquery depth subSQL)"
    by (simp add: resolve_attached)
  with a show "conditionClause c subQs depth =
        Inr (columnOrPlaceholder c @ '' IN ('' @ [newline]
             @ joinWith [newline] (map (\<lambda>l. repeat2 (depth + 2) @ l) (splitLines subSQL))
             @ [newline] @ repeat2 (depth + 1) @ '')'')"
    by (simp add: conditionClause.simps columnOrPlaceholder_def wrapSubquery_def)
next
  have sub: "buildSQL vipCustomers 2 =
      Inr (''SELECT id'' @ [newline] @ ''    FROM vip_customers;'')"
    by (simp add: vipCustomers_def builder_simps eval_nat_numeral)
  have "buildSQL scenarioE 0 =
              Inr (''SELECT *'' @ [newline] @ ''FROM orders'' @ [newline]
                   @ ''WHERE status IS NULL'' @ [newline]
                   @ ''  OR customer_id IN ('' @ [newline]
                   @ joinWith [newline] (map (\<lambda>l. ''    '' @ l)
                        (splitLines (''SELECT id'' @ [newline] @ ''    FROM vip_customers;'')))
                   @ [newline] @ ''  );'')"
    by (simp add: scenarioE_def customerIdInVip_def vipCustomers_def builder_simps
          eval_nat_numeral)
  with sub show "\<exists>subSQL. buildSQL vipCustomers 2 = Inr subSQL
          \<and> prefix (''SELECT id'' @ [newline]) subSQL
          \<and> buildSQL scenarioE 0 =
              Inr (''SELECT *'' @ [newline] @ ''FROM orders'' @ [newline]
                   @ ''WHERE status IS NULL'' @ [newline]
                   @ ''  OR customer_id IN ('' @ [newline]
                   @ joinWith [newline] (map (\<lambda>l. ''    '' @ l) (splitLines subSQL))
                   @ [newline] @ ''  );'')"
    by (intro exI [of _ "''SELECT id'' @ [newline] @ ''    FROM vip_customers;''"]) simp
qed

theorem in_subquery_clause_witness:
  "conditionClause customerIdInVip [(''sq1'', vipCustomers)] 0 =
     Inr (''customer_id IN ('' @ [newline]
          @ joinWith [newline] (map (\<lambda>l. ''    '' @ l)
               (splitLines (''SELECT id'' @ [newline] @ ''    FROM vip_customers;'')))
          @ [newline] @ ''  )'')"
proof -
  have sub: "buildSQL vipCustomers (0 + 2) =
      Inr (''SELECT id'' @ [newline] @ ''    FROM vip_customers;'')"
    by (simp add: vipCustomers_def builder_simps eval_nat_numeral)
  have "conditionClause customerIdInVip [(''sq1'', vipCustomers)] 0 =
        Inr (columnOrPlaceholder customerIdInVip @ '' IN ('' @ [newline]
             @ joinWith [newline] (map (\<lambda>l. repeat2 (0 + 2) @ l)
                  (splitLines (''SELECT id'' @ [newline] @ ''    FROM vip_customers;'')))
             @ [newline] @ repeat2 (0 + 1) @ '')'')"
    using in_subquery_clause [of customerIdInVip "''sq1''" "[(''sq1'', vipCustomers)]"
        vipCustomers 0 "''SELECT id'' @ [newline] @ ''    FROM vip_customers;''"] sub
    by (simp add: customerIdInVip_def)
  then show ?thesis
    by (simp add: columnOrPlaceholder_def customerIdInVip_def repeat2_def eval_nat_numeral)
qed

section \<open>Totality (C2)\<close>

text \<open>
  The recursion is well-founded: the termination proof shows that \<^verbatim>\<open>buildSQL\<close> descends
  only into children stored in \<^verbatim>\<open>subQueries\<close>. On a document with no inherited reference
  the builder returns a string at every depth.
\<close>

lemma resolve_total:
  assumes "childrenCompile subQs" "\<not> inheritedReference c subQs"
  shows "\<exists>operand. resolveConditionValue c subQs d = Inr operand"
proof (cases "attachedSubquery c subQs")
  case None
  then show ?thesis using assms(2) by (simp add: resolve_unattached)
next
  case (Some child)
  then obtain sid where "map_of subQs sid = Some child"
    by (auto simp: attachedSubquery_def split: option.splits if_splits)
  with assms(1) obtain subSQL where "buildSQL child (d + 2) = Inr subSQL"
    unfolding childrenCompile_def by blast
  with Some show ?thesis by (simp add: resolve_attached)
qed

lemma clause_total:
  assumes "childrenCompile subQs" "\<not> inheritedReference c subQs"
  shows "\<exists>clause. conditionClause c subQs d = Inr clause"
  using resolve_total [OF assms, of d]
  by (auto simp: conditionClause.simps Let_def)

lemma parts_total:
  assumes "childrenCompile subQs" "list_all (\<lambda>c. \<not> inheritedReference c subQs) cs"
  shows "\<exists>parts. whereParts cs i subQs d = Inr parts"
  using assms(2)
proof (induction cs arbitrary: i)
  case Nil
  show ?case by simp
next
  case (Cons c cs)
  from Cons.prems have c: "\<not> inheritedReference c subQs"
    and cs: "list_all (\<lambda>c. \<not> inheritedReference c subQs) cs"
    by simp_all
  obtain clause where "conditionClause c subQs d = Inr clause"
    using clause_total [OF assms(1) c, of d] by blast
  moreover obtain rest where "whereParts cs (i + 1) subQs d = Inr rest"
    using Cons.IH [OF cs, of "i + 1"] by blast
  ultimately show ?case by simp
qed

lemma where_total:
  assumes "childrenCompile subQs" "list_all (\<lambda>c. \<not> inheritedReference c subQs) cs"
  shows "\<exists>wh. buildWhereClause cs subQs d indent inner = Inr wh"
  using parts_total [OF assms, of 0 d]
  by (auto simp: buildWhereClause.simps)

lemma buildSQL_total_step:
  assumes "childrenCompile (subQueries node)"
    and "list_all (\<lambda>c. \<not> inheritedReference c (subQueries node)) (conditions node)"
  shows "\<exists>out. buildSQL node d = Inr out"
  using where_total [OF assms, of d "repeat2 d" "repeat2 (d + 1)"]
  by (cases "operation node")
     (auto simp: buildSQL.simps buildSelect.simps buildUpdate.simps buildDelete.simps Let_def)

lemma buildSQL_total:
  "noInheritedReference node \<Longrightarrow> \<exists>out. buildSQL node depth = Inr out"
proof (induction node arbitrary: depth)
  case (QueryNode i op t sc ps cs js os l subQs)
  have "childrenCompile subQs"
    unfolding childrenCompile_def
  proof (intro allI impI)
    fix sid child d
    assume "map_of subQs sid = Some child"
    then have mem: "(sid, child) \<in> set subQs"
      by (rule map_of_SomeD)
    then have "noInheritedReference child"
      using QueryNode.prems by (auto simp: list_all_iff)
    with mem show "\<exists>out. buildSQL child d = Inr out"
      using QueryNode.IH [of "(sid, child)" child d] by simp
  qed
  then show ?case
    using QueryNode.prems buildSQL_total_step [of "QueryNode i op t sc ps cs js os l subQs" depth]
    by simp
qed

text \<open>
  C2. The builder does throw, however, on a well-typed document: the guard of
  \<^verbatim>\<open>resolveConditionValue\<close> lets an inherited property through, and the compilation of
  \<open>constructorReference\<close> ends in a TypeError instead of a string.
\<close>

theorem inherited_key_throws: "buildSQL constructorReference 0 = Inl TypeError"
  by (simp add: constructorReference_def builder_simps)

section \<open>Clause shapes (C4, C9)\<close>

text \<open>
  C4, as stated, fails for a null test with an empty column: the clause is
  \<^verbatim>\<open>column IS NULL\<close>, not the empty column followed by the operator.
\<close>

theorem null_test_empty_column_counterexample:
  "conditionClause nullTestNoColumn [] 0
     \<noteq> Inr (c_column nullTestNoColumn @ '' '' @ operatorText (c_operator nullTestNoColumn))"
  by (simp add: nullTestNoColumn_def conditionClause.simps)

text \<open>
  C4, amended. The clause of a condition follows the operator partition, and in every
  shape that shows a column an empty column is replaced by the word \<^verbatim>\<open>column\<close>:
  EXISTS and NOT EXISTS give operator and operand; IS NULL and IS NOT NULL give column and
  operator; every other operator gives column, operator and operand. The operand is the
  wrapped text of the child when the \<^verbatim>\<open>subQueryId\<close> is an own entry of \<^verbatim>\<open>subQueries\<close> (and
  the child compiles), and the quoted value when no subquery is attached: no
  \<^verbatim>\<open>subQueryId\<close>, an empty one, or one that names neither an entry nor an inherited
  property.
\<close>

theorem clause_shapes:
  "(attachedSubquery c subQs = Some child \<and> buildSQL child (depth + 2) = Inr subSQL \<longrightarrow>
      conditionClause c subQs depth =
        Inr (clauseShape (c_operator c) (columnOrPlaceholder c) (wrapSubquery depth subSQL)))
   \<and> (attachedSubquery c subQs = None \<and> \<not> inheritedReference c subQs \<longrightarrow>
      conditionClause c subQs depth =
        Inr (clauseShape (c_operator c) (columnOrPlaceholder c) (quoted (c_value c))))"
  by (auto intro!: clause_from_operand resolve_attached resolve_unattached)

theorem clause_shapes_witness:
  "conditionClause nullTestNoColumn [] 0 = Inr ''column IS NULL''
   \<and> conditionClause existsDangling [] 1 = Inr (''EXISTS '' @ quoted ''v'')
   \<and> conditionClause customerIdInVip [(''sq1'', vipCustomers)] 0 =
       Inr (''customer_id IN '' @ wrapSubquery 0 (''SELECT id'' @ [newline] @ ''    FROM vip_customers;''))"
proof -
  have sub: "buildSQL vipCustomers (0 + 2) =
      Inr (''SELECT id'' @ [newline] @ ''    FROM vip_customers;'')"
    by (simp add: vipCustomers_def builder_simps eval_nat_numeral)
  have a: "attachedSubquery nullTestNoColumn [] = None \<and> \<not> inheritedReference nullTestNoColumn []"
    by (simp add: attachedSubquery_def inheritedReference_def nullTestNoColumn_def)
  have b: "attachedSubquery existsDangling [] = None \<and> \<not> inheritedReference existsDangling []"
    by (simp add: attachedSubquery_def inheritedReference_def existsDangling_def
          objectPrototypeKeys_def)
  have c: "attachedSubquery customerIdInVip [(''sq1'', vipCustomers)] = Some vipCustomers"
    by (simp add: attachedSubquery_def customerIdInVip_def)
  show ?thesis
    using clause_shapes [of nullTestNoColumn "[]" vipCustomers 0 "[]"] a
      clause_shapes [of existsDangling "[]" vipCustomers 1 "[]"] b
      clause_shapes [of customerIdInVip "[(''sq1'', vipCustomers)]" vipCustomers 0
        "''SELECT id'' @ [newline] @ ''    FROM vip_customers;''"] c sub
    by (simp add: clauseShape_def columnOrPlaceholder_def nullTestNoColumn_def
          existsDangling_def customerIdInVip_def)
qed

text \<open>
  C9, as stated, fails for a null test: with a dangling \<^verbatim>\<open>subQueryId\<close> the clause is still
  \<^verbatim>\<open>a IS NULL\<close>, without the quoted value.
\<close>

theorem dangling_null_test_counterexample:
  "conditionClause nullTestDangling [] 0
     \<noteq> Inr (c_column nullTestDangling @ '' '' @ operatorText (c_operator nullTestDangling)
            @ '' '' @ quoted (c_value nullTestDangling))"
  by (simp add: nullTestDangling_def conditionClause.simps)

text \<open>
  C9, amended. For a condition whose \<^verbatim>\<open>subQueryId\<close> is set but is neither a key of the
  node's \<^verbatim>\<open>subQueries\<close> nor the name of an inherited object property, the builder does not
  fail and falls back to the literal: operator and quoted value for EXISTS and NOT EXISTS,
  column and operator (no value) for IS NULL and IS NOT NULL, and column, operator and
  quoted value for every other operator, the word \<^verbatim>\<open>column\<close> standing in for an empty
  column.
\<close>

theorem dangling_reference_falls_back:
  assumes "c_subQueryId c = Some sid" "map_of subQs sid = None"
    and "sid \<notin> set objectPrototypeKeys"
  shows "conditionClause c subQs depth =
     Inr (if c_operator c = OpEXISTS \<or> c_operator c = OpNOT_EXISTS
          then operatorText (c_operator c) @ '' '' @ quoted (c_value c)
          else if c_operator c = OpIS_NULL \<or> c_operator c = OpIS_NOT_NULL
          then columnOrPlaceholder c @ '' '' @ operatorText (c_operator c)
          else columnOrPlaceholder c @ '' '' @ operatorText (c_operator c) @ '' ''
                 @ quoted (c_value c))"
proof -
  have "attachedSubquery c subQs = None" "\<not> inheritedReference c subQs"
    using assms by (simp_all add: attachedSubquery_def inheritedReference_def)
  then have "resolveConditionValue c subQs depth = Inr (quoted (c_value c))"
    by (rule resolve_unattached)
  then have "conditionClause c subQs depth =
      Inr (clauseShape (c_operator c) (columnOrPlaceholder c) (quoted (c_value c)))"
    by (rule clause_from_operand) simp
  then show ?thesis by (simp add: clauseShape_def)
qed

theorem dangling_reference_falls_back_witness:
  "conditionClause nullTestDangling [] 0 = Inr ''a IS NULL''
   \<and> conditionClause (nullTestDangling\<lparr>c_operator := OpLIKE\<rparr>) [] 0 = Inr (''a LIKE '' @ quoted ''v'')"
  using dangling_reference_falls_back [of nullTestDangling "''gone''" "[]" 0]
    dangling_reference_falls_back [of "nullTestDangling\<lparr>c_operator := OpLIKE\<rparr>" "''gone''" "[]" 0]
  by (simp add: nullTestDangling_def objectPrototypeKeys_def columnOrPlaceholder_def)

section \<open>Keywords in the compiled text (C6, C7)\<close>

subsection \<open>Occurrences of a keyword in a concatenation\<close>

lemma sublist_separator:
  assumes "c \<notin> set kw"
  shows "sublist kw (xs @ c # ys) \<longleftrightarrow> sublist kw xs \<or> sublist kw ys"
proof
  assume "sublist kw (xs @ c # ys)"
  then consider "sublist kw xs" | "sublist kw (c # ys)"
    | xs1 xs2 where "kw = xs1 @ xs2" "suffix xs1 xs" "prefix xs2 (c # ys)"
    by (auto simp: sublist_append)
  then show "sublist kw xs \<or> sublist kw ys"
  proof cases
    case 1
    then show ?thesis by simp
  next
    case 2
    then have "prefix kw (c # ys) \<or> sublist kw ys"
      by (simp add: sublist_Cons_right)
    moreover have "kw = []" if "prefix kw (c # ys)"
      using that assms by (cases kw) auto
    ultimately show ?thesis by auto
  next
    case 3
    from 3(3) assms 3(1) have "xs2 = []"
      by (cases xs2) auto
    with 3 show ?thesis by auto
  qed
next
  assume "sublist kw xs \<or> sublist kw ys"
  then show "sublist kw (xs @ c # ys)"
  proof
    assume "sublist kw xs"
    then show ?thesis by (rule sublist_order.order.trans) simp
  next
    assume "sublist kw ys"
    then have "sublist kw (c # ys)" by (simp add: sublist_Cons_right)
    then show ?thesis by (rule sublist_order.order.trans) simp
  qed
qed

lemma sublist_snoc_other:
  assumes "kw \<noteq> []" "last kw \<noteq> c"
  shows "sublist kw (xs @ [c]) \<longleftrightarrow> sublist kw xs"
proof
  assume "sublist kw (xs @ [c])"
  then obtain ps ss where eq: "xs @ [c] = ps @ kw @ ss"
    by (auto simp: sublist_def)
  show "sublist kw xs"
  proof (cases ss rule: rev_cases)
    case Nil
    with eq assms have False
      by (metis append_Nil2 append_assoc last_appendR last_snoc)
    then show ?thesis ..
  next
    case (snoc ss' z)
    with eq have "xs = ps @ kw @ ss'"
      by (metis append_assoc butlast_snoc)
    then show ?thesis by (auto simp: sublist_def)
  qed
next
  assume "sublist kw xs"
  then show "sublist kw (xs @ [c])" by (rule sublist_order.order.trans) simp
qed

lemma sublist_literal:
  assumes "kw \<noteq> []" "hd kw \<notin> set lit"
  shows "sublist kw (lit @ s) \<longleftrightarrow> sublist kw s"
  using assms
proof (induction lit)
  case Nil
  show ?case by simp
next
  case (Cons c lit)
  then have "\<not> prefix kw (c # lit @ s)"
    by (cases kw) auto
  with Cons show ?case by (simp add: sublist_Cons_right)
qed

lemma sublist_trim: "sublist kw (trim s) \<Longrightarrow> sublist kw s"
proof -
  have "prefix (trim s) (dropWhile isWhiteSpace s)"
    unfolding trim_def using suffix_dropWhile [of isWhiteSpace "rev (dropWhile isWhiteSpace s)"]
    by (simp add: suffix_to_prefix)
  then have "sublist (trim s) (dropWhile isWhiteSpace s)" by simp
  moreover have "sublist (dropWhile isWhiteSpace s) s"
    using suffix_dropWhile [of isWhiteSpace s] by simp
  ultimately have "sublist (trim s) s" by (rule sublist_order.order.trans)
  then show "sublist kw (trim s) \<Longrightarrow> sublist kw s"
    by (rule sublist_order.order.trans [rotated])
qed

lemma joinWith_free:
  assumes "kw \<noteq> []" "c1 \<notin> set kw" "hd kw \<noteq> c2" "\<forall>x\<in>set xs. \<not> sublist kw x"
  shows "\<not> sublist kw (joinWith [c1, c2] xs)"
  using assms(4)
proof (induction xs)
  case Nil
  with assms(1) show ?case by simp
next
  case (Cons x xs)
  show ?case
  proof (cases xs)
    case Nil
    with Cons.prems show ?thesis by simp
  next
    case (Cons y ys)
    have "\<not> sublist kw (joinWith [c1, c2] xs)"
      using Cons.IH Cons.prems by simp
    then have "\<not> sublist kw (c2 # joinWith [c1, c2] xs)"
      using sublist_literal [of kw "[c2]"] assms(1,3) by simp
    then show ?thesis
      using Cons.prems \<open>xs = y # ys\<close> sublist_separator [OF assms(2), of x]
      by simp
  qed
qed

lemma quoted_free:
  assumes "kw \<noteq> []" "CHR 0x27 \<notin> set kw" "\<not> sublist kw v"
  shows "\<not> sublist kw (quoted v)"
proof -
  have "hd kw \<noteq> CHR 0x27"
    using assms(1,2) by (cases kw) auto
  then have "sublist kw (quoted v) \<longleftrightarrow> sublist kw (v @ CHR 0x27 # [])"
    using sublist_literal [of kw "[CHR 0x27]" "v @ [CHR 0x27]"] assms(1)
    by (simp add: quoted_def)
  then show ?thesis
    using assms sublist_separator [OF assms(2), of v "[]"] by simp
qed

lemma free_append_startsOutside:
  assumes "\<not> sublist kw f" "startsOutside kw x"
  shows "\<not> sublist kw (f @ x)"
proof (cases x)
  case Nil
  with assms show ?thesis by simp
next
  case (Cons c cs)
  with assms(2) have "c \<notin> set kw" "\<not> sublist kw cs"
    by (auto simp: startsOutside_def sublist_Cons_right)
  with assms(1) Cons show ?thesis
    by (simp add: sublist_separator)
qed

lemma startsOutside_append:
  assumes "startsOutside kw x" "startsOutside kw y"
  shows "startsOutside kw (x @ y)"
proof -
  have "\<not> sublist kw (x @ y)"
    using assms by (intro free_append_startsOutside) (simp_all add: startsOutside_def)
  moreover have "x @ y = [] \<or> hd (x @ y) \<notin> set kw"
    using assms by (cases x) (auto simp: startsOutside_def)
  ultimately show ?thesis by (simp add: startsOutside_def)
qed

lemma startsOutside_Nil: "kw \<noteq> [] \<Longrightarrow> startsOutside kw []"
  by (simp add: startsOutside_def)

lemma startsOutside_concat:
  assumes "kw \<noteq> []" "\<forall>x\<in>set xs. startsOutside kw x"
  shows "startsOutside kw (concat xs)"
  using assms(2)
  by (induction xs) (simp_all add: startsOutside_Nil [OF assms(1)] startsOutside_append)

lemma startsOutside_line:
  assumes "newline \<notin> set kw" "\<not> sublist kw s"
  shows "startsOutside kw (newline # s)"
proof -
  have "kw \<noteq> [] \<Longrightarrow> hd kw \<noteq> newline"
    using assms(1) by (cases kw) auto
  then have "\<not> prefix kw (newline # s)"
    using assms(2) by (cases kw) auto
  with assms show ?thesis
    by (simp add: startsOutside_def sublist_Cons_right)
qed

subsection \<open>INSERT\<close>

lemma insert_text_free:
  assumes kw: "kw \<in> set clauseKeywords"
    and tbl: "\<not> sublist kw tbl"
    and ps: "\<forall>p\<in>set ps. \<not> sublist kw (p_column p) \<and> \<not> sublist kw (p_value p)"
  shows "\<not> sublist kw
     ((''INSERT INTO '' @ tbl @ '' '') @ CHR ''('' #
        joinWith '', '' (map p_column ps) @ CHR '')'' #
        (newline # ''VALUES '') @ CHR ''('' #
        joinWith '', '' (map (\<lambda>p. quoted (p_value p)) ps) @ CHR '')'' # '';'')"
proof -
  have side: "kw \<noteq> []" "CHR '','' \<notin> set kw" "CHR 0x27 \<notin> set kw" "CHR ''('' \<notin> set kw"
    "CHR '')'' \<notin> set kw" "hd kw \<noteq> CHR '' ''" "last kw \<noteq> CHR '' ''"
    using kw by (auto simp: clauseKeywords_def)
  have head: "sublist kw (''INSERT INTO '' @ t) \<longleftrightarrow> sublist kw t" for t
    using kw by (auto simp: clauseKeywords_def sublist_Cons_right)
  have lits: "\<not> sublist kw (newline # ''VALUES '')" "\<not> sublist kw '';''"
    using kw by (auto simp: clauseKeywords_def sublist_Cons_right)
  have "\<not> sublist kw ((''INSERT INTO '' @ tbl) @ [CHR '' ''])"
    unfolding sublist_snoc_other [OF side(1,7)] head by (rule tbl)
  then have a: "\<not> sublist kw (''INSERT INTO '' @ tbl @ '' '')" by simp
  have b: "\<not> sublist kw (joinWith '', '' (map p_column ps))"
    using joinWith_free [OF side(1,2,6), of "map p_column ps"] ps by simp
  have c: "\<not> sublist kw (joinWith '', '' (map (\<lambda>p. quoted (p_value p)) ps))"
    using joinWith_free [OF side(1,2,6), of "map (\<lambda>p. quoted (p_value p)) ps"] ps
      quoted_free [OF side(1,3)] by simp
  show ?thesis
    unfolding sublist_separator [OF side(4)] sublist_separator [OF side(5)]
    using a b c lits by simp
qed

lemma insert_text:
  "table node \<noteq> [] \<Longrightarrow> filter (\<lambda>p. p_column p \<noteq> []) (pairs node) \<noteq> [] \<Longrightarrow>
   buildInsert node =
     (''INSERT INTO '' @ table node @ '' '') @ CHR ''('' #
        joinWith '', '' (map p_column (filter (\<lambda>p. p_column p \<noteq> []) (pairs node))) @ CHR '')'' #
        (newline # ''VALUES '') @ CHR ''('' #
        joinWith '', '' (map (\<lambda>p. quoted (p_value p))
           (filter (\<lambda>p. p_column p \<noteq> []) (pairs node))) @ CHR '')'' # '';''"
  by (simp add: buildInsert_def Let_def)

lemma buildInsert_free:
  assumes kw: "kw \<in> set clauseKeywords"
    and tbl: "\<not> sublist kw (table node)"
    and ps: "\<forall>p\<in>set (pairs node). p_column p \<noteq> [] \<longrightarrow>
               \<not> sublist kw (p_column p) \<and> \<not> sublist kw (p_value p)"
  shows "\<not> sublist kw (buildInsert node)"
proof (cases "table node \<noteq> [] \<and> filter (\<lambda>p. p_column p \<noteq> []) (pairs node) \<noteq> []")
  case True
  then show ?thesis
    using insert_text_free [OF kw tbl, of "filter (\<lambda>p. p_column p \<noteq> []) (pairs node)"] ps
    by (simp add: insert_text)
next
  case False
  then show ?thesis
    using kw by (auto simp: buildInsert_def clauseKeywords_def sublist_Cons_right)
qed

text \<open>
  C6, as stated, fails when the user's own text contains a keyword: the INSERT into
  \<^verbatim>\<open>JOIN_REQUESTS\<close> contains \<^verbatim>\<open>JOIN\<close>.
\<close>

theorem insert_keyword_counterexample:
  "outputContains (buildSQL insertIntoJoinRequests 0) ''JOIN''"
  by (simp add: insertIntoJoinRequests_def builder_simps sublist_Cons_right)

text \<open>
  C6, amended. The text of every INSERT, whatever its conditions, joins, ordering and
  limit, is the text of the node with these fields (and the column list and subqueries)
  emptied. It contains one of \<^verbatim>\<open>WHERE\<close>, \<^verbatim>\<open>JOIN\<close>, \<^verbatim>\<open>ORDER BY\<close>, \<^verbatim>\<open>LIMIT\<close> only if the
  table name, or the column or value of a pair with a column, contains it.
\<close>

theorem insert_ignores_clauses:
  assumes "operation node = INSERT"
  shows "buildSQL node depth =
           buildSQL (QueryNode (n_id node) INSERT (table node) [] (pairs node) [] [] [] [] []) depth
         \<and> (kw \<in> set clauseKeywords \<and> (\<forall>t\<in>set (renderedTexts node). \<not> sublist kw t) \<longrightarrow>
              \<not> outputContains (buildSQL node depth) kw)"
proof (intro conjI impI)
  show "buildSQL node depth =
      buildSQL (QueryNode (n_id node) INSERT (table node) [] (pairs node) [] [] [] [] []) depth"
    using assms by (simp add: buildSQL.simps buildInsert_def Let_def)
next
  assume kw: "kw \<in> set clauseKeywords \<and> (\<forall>t\<in>set (renderedTexts node). \<not> sublist kw t)"
  have "\<not> sublist kw (buildInsert node)"
    using assms kw by (intro buildInsert_free) (auto simp: renderedTexts_def)
  then show "\<not> outputContains (buildSQL node depth) kw"
    using assms by (simp add: buildSQL.simps outputContains_def)
qed

theorem insert_ignores_clauses_witness:
  "buildSQL insertIntoJoinRequests 3 =
     Inr (''INSERT INTO JOIN_REQUESTS (name)'' @ [newline] @ ''VALUES ('' @ quoted ''Bo'' @ '');'')
   \<and> buildSQL insertIntoUsers 3 =
     Inr (''INSERT INTO users (name)'' @ [newline] @ ''VALUES ('' @ quoted ''Bo'' @ '');'')
   \<and> \<not> outputContains (buildSQL insertIntoUsers 3) ''ORDER BY''"
proof -
  have a: "buildSQL insertIntoJoinRequests 3 =
      buildSQL (QueryNode ''n1'' INSERT ''JOIN_REQUESTS'' []
        [\<lparr>p_id = ''p1'', p_column = ''name'', p_value = ''Bo''\<rparr>] [] [] [] [] []) 3"
    using insert_ignores_clauses [of insertIntoJoinRequests 3 "''JOIN''"]
    by (simp add: insertIntoJoinRequests_def)
  have b: "buildSQL insertIntoUsers 3 =
      buildSQL (QueryNode ''n1'' INSERT ''users'' []
        [\<lparr>p_id = ''p1'', p_column = ''name'', p_value = ''Bo''\<rparr>] [] [] [] [] []) 3
      \<and> \<not> outputContains (buildSQL insertIntoUsers 3) ''ORDER BY''"
    using insert_ignores_clauses [of insertIntoUsers 3 "''ORDER BY''"]
    by (auto simp: insertIntoUsers_def renderedTexts_def clauseKeywords_def sublist_Cons_right)
  have c: "buildSQL (QueryNode ''n1'' INSERT ''JOIN_REQUESTS'' []
        [\<lparr>p_id = ''p1'', p_column = ''name'', p_value = ''Bo''\<rparr>] [] [] [] [] []) 3 =
      Inr (''INSERT INTO JOIN_REQUESTS (name)'' @ [newline] @ ''VALUES ('' @ quoted ''Bo'' @ '');'')"
    by (simp add: buildSQL.simps buildInsert_def)
  have d: "buildSQL (QueryNode ''n1'' INSERT ''users'' []
        [\<lparr>p_id = ''p1'', p_column = ''name'', p_value = ''Bo''\<rparr>] [] [] [] [] []) 3 =
      Inr (''INSERT INTO users (name)'' @ [newline] @ ''VALUES ('' @ quoted ''Bo'' @ '');'')"
    by (simp add: buildSQL.simps buildInsert_def)
  show ?thesis
    using a b unfolding c d by blast
qed

subsection \<open>SELECT, UPDATE and DELETE without conditions\<close>

lemma set_repeat2: "set (repeat2 n) \<subseteq> {CHR '' ''}"
  by (induction n) (auto simp: repeat2_def)

lemma WHERE_repeat2 [simp]: "sublist ''WHERE'' (repeat2 n @ s) \<longleftrightarrow> sublist ''WHERE'' s"
  using set_repeat2 [of n] by (intro sublist_literal) auto

lemma WHERE_joinLine:
  assumes "j_table j \<noteq> [] \<and> j_onLeft j \<noteq> [] \<and> j_onRight j \<noteq> [] \<longrightarrow>
      \<not> sublist ''WHERE'' (j_table j) \<and> \<not> sublist ''WHERE'' (j_onLeft j)
      \<and> \<not> sublist ''WHERE'' (j_onRight j)"
  shows "startsOutside ''WHERE'' (joinLine (repeat2 n) j)"
proof (cases "j_table j \<noteq> [] \<and> j_onLeft j \<noteq> [] \<and> j_onRight j \<noteq> []")
  case False
  then show ?thesis by (auto simp: joinLine_def startsOutside_def)
next
  case True
  have ty: "sublist ''WHERE'' (joinTypeText (j_type j) @ '' JOIN '' @ t) \<longleftrightarrow> sublist ''WHERE'' t" for t
    by (cases "j_type j") (simp_all add: sublist_Cons_right)
  have "\<not> sublist ''WHERE'' (j_table j @ CHR '' '' # ''ON '' @ j_onLeft j @ CHR '' '' # ''= '' @ j_onRight j)"
    using assms True by (simp add: sublist_separator sublist_Cons_right)
  then have "\<not> sublist ''WHERE'' (repeat2 n @ joinTypeText (j_type j) @ '' JOIN '' @ j_table j
               @ '' ON '' @ j_onLeft j @ '' = '' @ j_onRight j)"
    unfolding WHERE_repeat2 ty by simp
  then show ?thesis
    using True by (simp add: joinLine_def startsOutside_line)
qed

lemma WHERE_orderLimit:
  assumes "\<forall>ob\<in>set (orderBy node). o_column ob \<noteq> [] \<longrightarrow> \<not> sublist ''WHERE'' (o_column ob)"
    and "\<not> sublist ''WHERE'' (limit node)"
  shows "startsOutside ''WHERE'' (appendOrderLimit [] (repeat2 n) node)"
proof -
  let ?cols = "joinWith '', ''
                 (map (\<lambda>ob. o_column ob @ '' '' @ directionText (o_direction ob))
                    (filter (\<lambda>ob. o_column ob \<noteq> []) (orderBy node)))"
  have dir: "\<not> sublist ''WHERE'' (directionText d)" for d
    by (cases d) (simp_all add: sublist_Cons_right)
  have "\<not> sublist ''WHERE'' ?cols"
    using assms(1) dir by (intro joinWith_free) (auto simp: sublist_separator)
  then have order: "startsOutside ''WHERE'' (newline # repeat2 n @ ''ORDER BY '' @ ?cols)"
    by (intro startsOutside_line) (simp_all add: sublist_Cons_right)
  have lim: "startsOutside ''WHERE'' (newline # repeat2 n @ ''LIMIT '' @ limit node)"
    using assms(2) by (intro startsOutside_line) (simp_all add: sublist_Cons_right)
  have semi: "startsOutside ''WHERE'' '';''"
    by (simp add: startsOutside_def sublist_Cons_right)
  have nil: "startsOutside ''WHERE'' []"
    by (simp add: startsOutside_def)
  have eq: "appendOrderLimit [] (repeat2 n) node =
      (if orderBy node \<noteq> [] \<and> ?cols \<noteq> [] then newline # repeat2 n @ ''ORDER BY '' @ ?cols else [])
      @ (if limit node \<noteq> [] then newline # repeat2 n @ ''LIMIT '' @ limit node else [])
      @ '';''"
    by (simp add: appendOrderLimit_def Let_def)
  have parts:
    "startsOutside ''WHERE''
       (if orderBy node \<noteq> [] \<and> ?cols \<noteq> [] then newline # repeat2 n @ ''ORDER BY '' @ ?cols else [])"
    "startsOutside ''WHERE''
       (if limit node \<noteq> [] then newline # repeat2 n @ ''LIMIT '' @ limit node else [])"
    using order lim nil by simp_all
  show ?thesis
    unfolding eq by (intro startsOutside_append parts semi)
qed

lemma select_tail:
  "appendOrderLimit (appendJoins sql indent js @ wh) indent node =
     sql @ concat (map (joinLine indent) js) @ wh @ appendOrderLimit [] indent node"
  by (subst appendOrderLimit_append, subst appendJoins_concat) simp

lemma select_text:
  "buildSelect node d (repeat2 d) inner =
     (if table node = [] then Inr (repeat2 d @ ''-- Please fill in the table name'')
      else case buildWhereClause (conditions node) (subQueries node) d (repeat2 d) inner of
             Inl e \<Rightarrow> Inl e
           | Inr wh \<Rightarrow>
               Inr ((''SELECT ''
                      @ (if trim (selectColumns node) \<noteq> [] then trim (selectColumns node) else ''*''))
                    @ newline # repeat2 d
                    @ (''FROM '' @ table node) @ concat (map (joinLine (repeat2 d)) (joins node))
                    @ wh @ appendOrderLimit [] (repeat2 d) node))"
  by (simp add: buildSelect.simps Let_def select_tail split: sum.splits)

lemma buildWhereClause_Nil: "buildWhereClause [] subQs d indent inner = Inr []"
  by (simp add: buildWhereClause.simps)

lemma WHERE_select:
  assumes "operation node = SELECT" "conditions node = []"
    and texts: "\<forall>t\<in>set (renderedTexts node). \<not> sublist ''WHERE'' t"
  shows "\<not> outputContains (buildSelect node d (repeat2 d) inner) ''WHERE''"
proof (cases "table node = []")
  case True
  then show ?thesis
    by (simp add: select_text outputContains_def sublist_Cons_right)
next
  case False
  let ?cols = "if trim (selectColumns node) \<noteq> [] then trim (selectColumns node) else ''*''"
  let ?J = "concat (map (joinLine (repeat2 d)) (joins node))"
  let ?O = "appendOrderLimit [] (repeat2 d) node"
  from texts assms(1) have cols: "\<not> sublist ''WHERE'' ?cols"
    using sublist_trim [of "''WHERE''" "selectColumns node"]
    by (auto simp: renderedTexts_def sublist_Cons_right)
  from texts assms(1) have tbl: "\<not> sublist ''WHERE'' (table node)"
    by (simp add: renderedTexts_def)
  have J: "startsOutside ''WHERE'' ?J"
    using texts assms(1)
    by (intro startsOutside_concat) (auto simp: renderedTexts_def intro!: WHERE_joinLine)
  have O: "startsOutside ''WHERE'' ?O"
    using texts assms(1) by (intro WHERE_orderLimit) (auto simp: renderedTexts_def)
  have "\<not> sublist ''WHERE'' (table node @ ?J @ ?O)"
    by (intro free_append_startsOutside startsOutside_append tbl J O)
  then have "\<not> sublist ''WHERE'' (repeat2 d @ (''FROM '' @ table node) @ ?J @ [] @ ?O)"
    unfolding WHERE_repeat2 by (simp add: sublist_Cons_right)
  then have "\<not> sublist ''WHERE''
      ((''SELECT '' @ ?cols) @ newline # repeat2 d @ (''FROM '' @ table node) @ ?J @ [] @ ?O)"
    using cols sublist_separator [of newline "''WHERE''" "''SELECT '' @ ?cols"]
      sublist_literal [of "''WHERE''" "''SELECT ''" ?cols]
    by simp
  with False assms(2) show ?thesis
    by (simp add: select_text outputContains_def buildWhereClause_Nil)
qed

lemma WHERE_update:
  assumes "operation node = UPDATE" "conditions node = []"
    and texts: "\<forall>t\<in>set (renderedTexts node). \<not> sublist ''WHERE'' t"
  shows "\<not> outputContains (buildUpdate node d (repeat2 d) (repeat2 (d + 1))) ''WHERE''"
proof (cases "table node = [] \<or> filter (\<lambda>p. p_column p \<noteq> []) (pairs node) = []")
  case True
  then show ?thesis
    by (auto simp: buildUpdate.simps outputContains_def sublist_Cons_right)
next
  case False
  let ?filled = "filter (\<lambda>p. p_column p \<noteq> []) (pairs node)"
  let ?set = "\<lambda>p. repeat2 (d + 1) @ p_column p @ '' = '' @ quoted (p_value p)"
  from texts assms(1) have tbl: "\<not> sublist ''WHERE'' (table node)"
    by (simp add: renderedTexts_def)
  have "\<not> sublist ''WHERE'' (?set p)" if "p \<in> set ?filled" for p
  proof -
    from that texts assms(1)
    have "\<not> sublist ''WHERE'' (p_column p)" "\<not> sublist ''WHERE'' (p_value p)"
      by (auto simp: renderedTexts_def)
    then have "\<not> sublist ''WHERE'' (p_column p @ CHR '' '' # ''= '' @ quoted (p_value p))"
      using quoted_free [of "''WHERE''" "p_value p"]
      by (simp add: sublist_separator sublist_Cons_right)
    then show ?thesis
      unfolding WHERE_repeat2 by simp
  qed
  then have "\<not> sublist ''WHERE'' (joinWith ('','' @ [newline]) (map ?set ?filled))"
    using joinWith_free [of "''WHERE''" "CHR '',''" newline "map ?set ?filled"] by simp
  then have "\<not> sublist ''WHERE''
      (repeat2 d @ ''SET'' @ newline # joinWith ('','' @ [newline]) (map ?set ?filled) @ '';'')"
    unfolding WHERE_repeat2 by (simp add: sublist_Cons_right sublist_separator)
  then have "\<not> sublist ''WHERE''
      (''UPDATE '' @ table node @ newline # repeat2 d @ ''SET''
         @ newline # joinWith ('','' @ [newline]) (map ?set ?filled) @ '';'')"
    using tbl sublist_separator [of newline "''WHERE''" "table node"]
    by (simp add: sublist_Cons_right)
  with False assms(2) show ?thesis
    by (simp add: buildUpdate.simps outputContains_def buildWhereClause_Nil Let_def)
qed

lemma WHERE_delete:
  assumes "operation node = DELETE" "conditions node = []"
    and texts: "\<forall>t\<in>set (renderedTexts node). \<not> sublist ''WHERE'' t"
  shows "\<not> outputContains (buildDelete node d (repeat2 d) inner) ''WHERE''"
proof -
  from texts assms(1) have tbl: "\<not> sublist ''WHERE'' (table node)"
    by (simp add: renderedTexts_def)
  then have "\<not> sublist ''WHERE'' (''DELETE FROM '' @ table node @ '';'')"
    using sublist_separator [of "CHR '';''" "''WHERE''" "table node" "[]"]
    by (simp add: sublist_Cons_right)
  then show ?thesis
    using assms(2)
    by (simp add: buildDelete.simps outputContains_def buildWhereClause_Nil Let_def
          sublist_Cons_right)
qed

text \<open>
  C7, as stated, fails when the user's own text contains the keyword: the SELECT from
  \<^verbatim>\<open>WHEREABOUTS\<close> has no conditions and contains \<^verbatim>\<open>WHERE\<close>.
\<close>

theorem where_keyword_counterexample:
  "outputContains (buildSQL selectFromWhereabouts 0) ''WHERE''"
  by (simp add: selectFromWhereabouts_def builder_simps sublist_Cons_right)

text \<open>
  C7, amended. For every SELECT, UPDATE or DELETE whose conditions are empty, at every
  depth, the WHERE clause is the empty text, and the compiled text contains \<^verbatim>\<open>WHERE\<close>
  only if one of the user's own strings that the statement shows contains it.
\<close>

theorem where_omitted:
  assumes "operation node \<noteq> INSERT" "conditions node = []"
  shows "buildWhereClause (conditions node) (subQueries node) depth
           (repeat2 depth) (repeat2 (depth + 1)) = Inr []
         \<and> ((\<forall>t\<in>set (renderedTexts node). \<not> sublist ''WHERE'' t) \<longrightarrow>
              \<not> outputContains (buildSQL node depth) ''WHERE'')"
proof (intro conjI impI)
  show "buildWhereClause (conditions node) (subQueries node) depth
           (repeat2 depth) (repeat2 (depth + 1)) = Inr []"
    using assms(2) by (simp add: buildWhereClause_Nil)
next
  assume "\<forall>t\<in>set (renderedTexts node). \<not> sublist ''WHERE'' t"
  then show "\<not> outputContains (buildSQL node depth) ''WHERE''"
    using assms WHERE_select [of node depth "repeat2 (depth + 1)"] WHERE_update [of node depth]
      WHERE_delete [of node depth "repeat2 (depth + 1)"]
    by (cases "operation node") (simp_all add: buildSQL.simps Let_def)
qed

theorem where_omitted_witness:
  "buildWhereClause (conditions selectFromWhereabouts) (subQueries selectFromWhereabouts) 0
     (repeat2 0) (repeat2 (0 + 1)) = Inr []
   \<and> \<not> outputContains (buildSQL selectFromUsers 2) ''WHERE''"
  using where_omitted [of selectFromWhereabouts 0] where_omitted [of selectFromUsers 2]
  by (simp add: selectFromWhereabouts_def selectFromUsers_def renderedTexts_def
        sublist_Cons_right)

section \<open>Depth and indentation (C8)\<close>

subsection \<open>Stripping in one pass\<close>

lemma stripFrom_append: "stripFrom b (xs @ ys) = stripFrom b xs @ stripFrom (atLineStart b xs) ys"
  by (induction xs arbitrary: b) auto

lemma atLineStart_append: "atLineStart b (xs @ ys) = atLineStart (atLineStart b xs) ys"
  by (induction xs arbitrary: b) auto

lemma splitLines_stripFrom:
  "splitLines (stripFrom b s) =
     (case splitLines s of
        l # ls \<Rightarrow> (if b then stripLeading l else l) # map stripLeading ls
      | [] \<Rightarrow> [])"
proof (induction s arbitrary: b)
  case Nil
  show ?case by (simp add: stripLeading_def)
next
  case (Cons c cs)
  obtain l ls where split: "splitLines cs = l # ls"
    using splitLines_not_Nil [of cs] by (cases "splitLines cs") auto
  show ?case
    using Cons.IH [of True] Cons.IH [of False] split
    by (auto simp: stripLeading_def isWhiteSpace_def)
qed

lemma strippedLines_stripFrom: "strippedLines s = splitLines (stripFrom True s)"
  using splitLines_not_Nil [of s]
  by (cases "splitLines s") (simp_all add: splitLines_stripFrom strippedLines_def)

lemma same_refl [simp]: "same b s s"
  by (simp add: same_def)

lemma same_Cons [simp]:
  "same b (c # s) (c # t) = same (c = newline \<or> (b \<and> isWhiteSpace c)) s t"
  by (auto simp: same_def)

lemma same_append_left [simp]: "same b (xs @ s) (xs @ t) = same (atLineStart b xs) s t"
  by (simp add: same_def stripFrom_append atLineStart_append)

lemma stripFrom_repeat2: "stripFrom True (repeat2 n @ s) = stripFrom True s"
  by (induction n) (simp_all add: repeat2_def isWhiteSpace_def)

lemma atLineStart_repeat2: "atLineStart True (repeat2 n @ s) = atLineStart True s"
  by (induction n) (simp_all add: repeat2_def isWhiteSpace_def)

lemma same_indent [simp]: "same True (repeat2 m @ s) (repeat2 n @ t) = same True s t"
  by (simp add: same_def stripFrom_repeat2 atLineStart_repeat2)

lemma same_append:
  "same b s t \<Longrightarrow> same (atLineStart b s) u v \<Longrightarrow> same b (s @ u) (t @ v)"
  by (simp add: same_def stripFrom_append atLineStart_append)

lemma same_sym: "same b s t \<Longrightarrow> same b t s"
  by (simp add: same_def)

lemma same_trans: "same b s t \<Longrightarrow> same b t u \<Longrightarrow> same b s u"
  by (simp add: same_def)

lemma sameText_same: "sameText s t \<Longrightarrow> same b s t"
  by (cases b) (simp_all add: sameText_def)

lemma sameTextI: "(\<And>b. same b s t) \<Longrightarrow> sameText s t"
  by (simp add: sameText_def)

lemma sameText_refl [simp]: "sameText s s"
  by (simp add: sameText_def)

lemma sameText_appendI:
  "sameText s t \<Longrightarrow> sameText u v \<Longrightarrow> sameText (s @ u) (t @ v)"
  by (auto simp: sameText_def intro!: same_append intro: sameText_same [unfolded sameText_def])

lemma sameText_append_left [simp]: "sameText u v \<Longrightarrow> sameText (xs @ u) (xs @ v)"
  by (simp add: sameText_appendI)

lemma sameText_Cons [simp]: "sameText u v \<Longrightarrow> sameText (c # u) (c # v)"
  using sameText_append_left [of u v "[c]"] by simp

lemma sameText_newline_indent [simp]:
  "same True u v \<Longrightarrow> sameText (newline # repeat2 m @ u) (newline # repeat2 n @ v)"
  by (simp add: sameText_def)

subsection \<open>Re-indented subqueries\<close>

lemma joinWith_Cons_char: "joinWith sep ((c # l) # ls) = c # joinWith sep (l # ls)"
  by (cases ls) simp_all

lemma reindent_insert: "reindent depth s = insertAfterNewlines (repeat2 (depth + 2)) s"
proof (induction s)
  case Nil
  show ?case by (simp add: reindent_def)
next
  case (Cons c cs)
  obtain l ls where split: "splitLines cs = l # ls"
    using splitLines_not_Nil [of cs] by (cases "splitLines cs") auto
  from Cons.IH split
  have IH: "insertAfterNewlines (repeat2 (depth + 2)) cs =
      joinWith [newline] (l # map (\<lambda>l. repeat2 (depth + 2) @ l) ls)"
    by (simp add: reindent_def)
  show ?case
  proof (cases "c = newline")
    case True
    then show ?thesis
      using split IH joinWith_prepend [of "repeat2 (depth + 2)" "[newline]" l
          "map (\<lambda>l. repeat2 (depth + 2) @ l) ls"]
      by (simp add: reindent_def)
  next
    case False
    then show ?thesis
      using split IH by (simp add: reindent_def joinWith_Cons_char del: joinWith.simps)
  qed
qed

lemma same_insertAfterNewlines: "same b (insertAfterNewlines (repeat2 n) s) s"
proof (induction s arbitrary: b)
  case Nil
  show ?case by simp
next
  case (Cons c cs)
  have "same True (repeat2 n @ insertAfterNewlines (repeat2 n) cs) (repeat2 0 @ cs)"
    unfolding same_indent by (rule Cons.IH)
  then have "same True (repeat2 n @ insertAfterNewlines (repeat2 n) cs) cs"
    by (simp add: repeat2_def)
  then show ?case
    using Cons.IH by simp
qed

lemma same_reindent: "same b (reindent depth s) s"
  by (simp add: reindent_insert same_insertAfterNewlines)

lemma same_reindent_both:
  assumes "same True s t"
  shows "same True (reindent d s) (reindent d' t)"
  using same_trans [OF same_trans [OF same_reindent assms] same_sym [OF same_reindent]] .

lemma sameText_wrap:
  assumes "same True s t"
  shows "sameText
     (''('' @ [newline] @ repeat2 (d + 2) @ reindent d s @ [newline] @ repeat2 (d + 1) @ '')'')
     (''('' @ [newline] @ repeat2 (d' + 2) @ reindent d' t @ [newline] @ repeat2 (d' + 1) @ '')'')"
proof (rule sameTextI)
  fix b
  have tail: "same b' ([newline] @ repeat2 (d + 1) @ '')'') ([newline] @ repeat2 (d' + 1) @ '')'')" for b'
    by simp
  have "same True (reindent d s @ [newline] @ repeat2 (d + 1) @ '')'')
                  (reindent d' t @ [newline] @ repeat2 (d' + 1) @ '')'')"
    by (rule same_append [OF same_reindent_both [OF assms] tail])
  then show "same b
     (''('' @ [newline] @ repeat2 (d + 2) @ reindent d s @ [newline] @ repeat2 (d + 1) @ '')'')
     (''('' @ [newline] @ repeat2 (d' + 2) @ reindent d' t @ [newline] @ repeat2 (d' + 1) @ '')'')"
    by simp
qed

subsection \<open>The builder at two depths\<close>

lemma rel_sum_cases:
  assumes "rel_sum (=) R x y"
  obtains (Error) e where "x = Inl e" "y = Inl e"
        | (Text) s t where "x = Inr s" "y = Inr t" "R s t"
  using assms by (cases x; cases y) auto

lemma resolve_same:
  assumes H: "childrenAgree subQs"
  shows "rel_sum (=) sameText (resolveConditionValue c subQs d) (resolveConditionValue c subQs d')"
proof (cases "c_subQueryId c")
  case None
  then show ?thesis by (simp add: resolveConditionValue.simps)
next
  case (Some sid)
  show ?thesis
  proof (cases "sid = []")
    case True
    with Some show ?thesis by (simp add: resolveConditionValue.simps)
  next
    case False
    show ?thesis
    proof (cases "map_of subQs sid")
      case None
      with Some False show ?thesis
        by (simp add: resolveConditionValue.simps getProperty_def)
    next
      case (Some child)
      from H Some have "rel_sum (=) (same True) (buildSQL child (d + 2)) (buildSQL child (d' + 2))"
        by (simp add: childrenAgree_def)
      then show ?thesis
      proof (cases rule: rel_sum_cases)
        case (Error e)
        with Some \<open>c_subQueryId c = Some sid\<close> False show ?thesis
          by (simp add: resolveConditionValue.simps getProperty_def)
      next
        case (Text s t)
        with Some \<open>c_subQueryId c = Some sid\<close> False sameText_wrap [OF Text(3), of d d']
        show ?thesis
          by (simp add: resolveConditionValue.simps getProperty_def)
      qed
    qed
  qed
qed

lemma clause_same:
  assumes H: "childrenAgree subQs"
  shows "rel_sum (=) sameText (conditionClause c subQs d) (conditionClause c subQs d')"
  using resolve_same [OF H, of c d d']
  by (cases rule: rel_sum_cases) (simp_all add: conditionClause.simps Let_def)

lemma parts_same:
  assumes H: "childrenAgree subQs"
  shows "rel_sum (=) (list_all2 sameText) (whereParts cs i subQs d) (whereParts cs i subQs d')"
proof (induction cs arbitrary: i)
  case Nil
  show ?case by simp
next
  case (Cons c cs)
  from clause_same [OF H, of c d d'] show ?case
  proof (cases rule: rel_sum_cases)
    case (Error e)
    then show ?thesis by simp
  next
    case clause: (Text s t)
    from Cons.IH [of "i + 1"] show ?thesis
    proof (cases rule: rel_sum_cases)
      case (Error e)
      with clause show ?thesis by simp
    next
      case (Text ps qs)
      with clause show ?thesis by simp
    qed
  qed
qed

lemma joinWith_same:
  "list_all2 sameText ps qs \<Longrightarrow>
     sameText (joinWith (newline # repeat2 m) ps) (joinWith (newline # repeat2 n) qs)"
proof (induction ps qs rule: list_all2_induct)
  case Nil
  show ?case by simp
next
  case (Cons p ps q qs)
  show ?case
  proof (cases ps)
    case Nil
    with Cons show ?thesis by simp
  next
    case (Cons p' ps')
    with Cons.hyps(2) obtain q' qs' where qs: "qs = q' # qs'"
      by (cases qs) auto
    have "sameText (newline # repeat2 m @ joinWith (newline # repeat2 m) ps)
                   (newline # repeat2 n @ joinWith (newline # repeat2 n) qs)"
      using Cons.IH by (simp add: sameText_same)
    then show ?thesis
      using Cons.hyps(1) \<open>ps = p' # ps'\<close> qs by (simp add: sameText_appendI)
  qed
qed

lemma where_same:
  assumes H: "childrenAgree subQs"
  shows "rel_sum (=) sameText
           (buildWhereClause cs subQs d (repeat2 d) (repeat2 (d + 1)))
           (buildWhereClause cs subQs d' (repeat2 d') (repeat2 (d' + 1)))"
proof (cases "cs = []")
  case True
  then show ?thesis by (simp add: buildWhereClause.simps)
next
  case False
  from parts_same [OF H, of cs 0 d d'] show ?thesis
  proof (cases rule: rel_sum_cases)
    case (Error e)
    with False show ?thesis by (simp add: buildWhereClause.simps)
  next
    case (Text ps qs)
    have "sameText (joinWith (newline # repeat2 (d + 1)) ps) (joinWith (newline # repeat2 (d' + 1)) qs)"
      using Text(3) by (rule joinWith_same)
    then have "sameText (newline # repeat2 d @ ''WHERE '' @ joinWith (newline # repeat2 (d + 1)) ps)
       (newline # repeat2 d' @ ''WHERE '' @ joinWith (newline # repeat2 (d' + 1)) qs)"
      by (intro sameText_newline_indent sameText_same sameText_append_left)
    with Text False show ?thesis by (simp add: buildWhereClause.simps)
  qed
qed

lemma joins_same:
  "sameText (concat (map (joinLine (repeat2 m)) js)) (concat (map (joinLine (repeat2 n)) js))"
proof (induction js)
  case Nil
  show ?case by simp
next
  case (Cons j js)
  have "sameText (joinLine (repeat2 m) j) (joinLine (repeat2 n) j)"
    by (simp add: joinLine_def)
  with Cons.IH show ?case
    by (simp add: sameText_appendI)
qed

lemma orderLimit_same:
  "sameText (appendOrderLimit [] (repeat2 m) node) (appendOrderLimit [] (repeat2 n) node)"
  by (simp add: appendOrderLimit_def Let_def sameText_appendI)

lemma sets_same:
  "same True (joinWith ('','' @ [newline]) (map (\<lambda>p. repeat2 m @ f p) ps))
             (joinWith ('','' @ [newline]) (map (\<lambda>p. repeat2 n @ f p) ps))"
proof (induction ps)
  case Nil
  show ?case by simp
next
  case (Cons p ps)
  show ?case
  proof (cases ps)
    case Nil
    then show ?thesis by simp
  next
    case (Cons p' ps')
    with Cons.IH show ?thesis by simp
  qed
qed

lemma select_same:
  assumes H: "childrenAgree (subQueries node)"
  shows "rel_sum (=) (same True)
           (buildSelect node d (repeat2 d) (repeat2 (d + 1)))
           (buildSelect node d' (repeat2 d') (repeat2 (d' + 1)))"
proof (cases "table node = []")
  case True
  then show ?thesis by (simp add: select_text)
next
  case False
  from where_same [OF H, of "conditions node" d d'] show ?thesis
  proof (cases rule: rel_sum_cases)
    case (Error e)
    with False show ?thesis by (simp add: select_text)
  next
    case (Text wh wh')
    have "sameText
        (newline # repeat2 d @ (''FROM '' @ table node)
           @ concat (map (joinLine (repeat2 d)) (joins node))
           @ wh @ appendOrderLimit [] (repeat2 d) node)
        (newline # repeat2 d' @ (''FROM '' @ table node)
           @ concat (map (joinLine (repeat2 d')) (joins node))
           @ wh' @ appendOrderLimit [] (repeat2 d') node)"
      by (intro sameText_newline_indent sameText_same sameText_append_left sameText_appendI
            joins_same orderLimit_same Text(3))
    then have "same True
        ((''SELECT ''
            @ (if trim (selectColumns node) \<noteq> [] then trim (selectColumns node) else ''*''))
          @ newline # repeat2 d @ (''FROM '' @ table node)
           @ concat (map (joinLine (repeat2 d)) (joins node))
           @ wh @ appendOrderLimit [] (repeat2 d) node)
        ((''SELECT ''
            @ (if trim (selectColumns node) \<noteq> [] then trim (selectColumns node) else ''*''))
          @ newline # repeat2 d' @ (''FROM '' @ table node)
           @ concat (map (joinLine (repeat2 d')) (joins node))
           @ wh' @ appendOrderLimit [] (repeat2 d') node)"
      unfolding same_append_left by (rule sameText_same)
    with Text False show ?thesis by (simp only: select_text if_False sum.case rel_sum_simps)
  qed
qed

lemma update_same:
  assumes H: "childrenAgree (subQueries node)"
  shows "rel_sum (=) (same True)
           (buildUpdate node d (repeat2 d) (repeat2 (d + 1)))
           (buildUpdate node d' (repeat2 d') (repeat2 (d' + 1)))"
proof (cases "table node = [] \<or> filter (\<lambda>p. p_column p \<noteq> []) (pairs node) = []")
  case True
  then show ?thesis by (auto simp: buildUpdate.simps)
next
  case False
  let ?sets = "\<lambda>k. joinWith ('','' @ [newline])
      (map (\<lambda>p. repeat2 k @ p_column p @ '' = '' @ quoted (p_value p))
         (filter (\<lambda>p. p_column p \<noteq> []) (pairs node)))"
  from where_same [OF H, of "conditions node" d d'] show ?thesis
  proof (cases rule: rel_sum_cases)
    case (Error e)
    with False show ?thesis by (simp add: buildUpdate.simps)
  next
    case (Text wh wh')
    have "same True (?sets (d + 1) @ wh @ '';'') (?sets (d' + 1) @ wh' @ '';'')"
      by (intro same_append sets_same sameText_same sameText_appendI Text(3) sameText_refl)
    then have "same True
        ((''UPDATE '' @ table node) @ newline # repeat2 d @ ''SET'' @ newline
            # ?sets (d + 1) @ wh @ '';'')
        ((''UPDATE '' @ table node) @ newline # repeat2 d' @ ''SET'' @ newline
            # ?sets (d' + 1) @ wh' @ '';'')"
      unfolding same_append_left by simp
    with Text False show ?thesis by (simp add: buildUpdate.simps Let_def)
  qed
qed

lemma delete_same:
  assumes H: "childrenAgree (subQueries node)"
  shows "rel_sum (=) (same True)
           (buildDelete node d (repeat2 d) (repeat2 (d + 1)))
           (buildDelete node d' (repeat2 d') (repeat2 (d' + 1)))"
proof (cases "table node = []")
  case True
  then show ?thesis by (simp add: buildDelete.simps)
next
  case False
  from where_same [OF H, of "conditions node" d d'] show ?thesis
  proof (cases rule: rel_sum_cases)
    case (Error e)
    with False show ?thesis by (simp add: buildDelete.simps)
  next
    case (Text wh wh')
    have "same True ((''DELETE FROM '' @ table node) @ wh @ '';'')
                    ((''DELETE FROM '' @ table node) @ wh' @ '';'')"
      unfolding same_append_left
      by (intro sameText_same sameText_appendI Text(3) sameText_refl)
    with Text False show ?thesis by (simp add: buildDelete.simps Let_def)
  qed
qed

lemma buildSQL_same_step:
  assumes H: "childrenAgree (subQueries node)"
  shows "rel_sum (=) (same True) (buildSQL node d) (buildSQL node d')"
  using select_same [OF H, of d d'] update_same [OF H, of d d'] delete_same [OF H, of d d']
  by (cases "operation node") (simp_all add: buildSQL.simps Let_def)

lemma buildSQL_same: "rel_sum (=) (same True) (buildSQL node d) (buildSQL node d')"
proof (induction "size node" arbitrary: node d d' rule: less_induct)
  case less
  have "childrenAgree (subQueries node)"
    unfolding childrenAgree_def
  proof (intro allI impI)
    fix sid child d d'
    assume "map_of (subQueries node) sid = Some child"
    then have "getProperty (subQueries node) sid = Own child"
      by (simp add: getProperty_def)
    then have "size child < size node"
      using getProperty_Own_size [of "subQueries node" sid child] subQueries_size [of node]
      by linarith
    then show "rel_sum (=) (same True) (buildSQL child d) (buildSQL child d')"
      by (rule less)
  qed
  then show ?case by (rule buildSQL_same_step)
qed

text \<open>
  C8, as stated, fails. The subquery's text is re-indented line by line, and a value that
  contains a line feed spans two lines: in \<open>twoLineParent\<close> the literal of the subquery's value
  is \<^verbatim>\<open>x\<close>, a line feed, four spaces and \<^verbatim>\<open>y\<close> at depth 0, and \<^verbatim>\<open>x\<close>, a line feed, eight spaces
  and \<^verbatim>\<open>y\<close> at depth 2. The value token changes with the depth, on a line that is neither a
  clause line nor a continuation line.
\<close>

theorem value_token_counterexample:
  "buildSQL twoLineParent 0 =
     Inr (''SELECT *'' @ [newline] @ ''FROM t'' @ [newline] @ ''WHERE a IN ('' @ [newline]
          @ ''    SELECT *'' @ [newline] @ ''        FROM u'' @ [newline]
          @ ''        WHERE b = '' @ quoted (''x'' @ [newline] @ ''    y'') @ '';'' @ [newline]
          @ ''  );'')
   \<and> buildSQL twoLineParent 2 =
     Inr (''SELECT *'' @ [newline] @ ''    FROM t'' @ [newline] @ ''    WHERE a IN ('' @ [newline]
          @ ''        SELECT *'' @ [newline] @ ''                FROM u'' @ [newline]
          @ ''                WHERE b = '' @ quoted (''x'' @ [newline] @ ''        y'') @ '';''
          @ [newline] @ ''      );'')
   \<and> \<not> outputContains (buildSQL twoLineParent 2) (quoted (''x'' @ [newline] @ ''    y''))"
  by (simp add: twoLineParent_def twoLineChild_def twoLineValue_def builder_simps Let_def
        eval_nat_numeral sublist_Cons_right)

text \<open>
  C8, amended. Compiled at depth 0 and at depth 2, a node gives texts that differ only in
  the leading whitespace of their lines: stripping the leading whitespace of every line
  gives the same sequence of lines. (When the builder throws, it throws at both depths.)
  The lines are those of the text: the later lines of a value that contains a line feed
  are among them, so such a value is unchanged up to the leading whitespace of its lines.
\<close>

theorem depth_changes_indentation_only:
  "map_sum id strippedLines (buildSQL node 0) = map_sum id strippedLines (buildSQL node 2)"
  using buildSQL_same [of node 0 2]
  by (cases rule: rel_sum_cases) (simp_all add: strippedLines_stripFrom same_def)

theorem depth_changes_indentation_only_witness:
  "map_sum id strippedLines (buildSQL scenarioE 2) =
     Inr [''SELECT *'', ''FROM orders'', ''WHERE status IS NULL'', ''OR customer_id IN ('',
          ''SELECT id'', ''FROM vip_customers;'', '');'']"
  unfolding depth_changes_indentation_only [of scenarioE, symmetric]
  by (simp add: scenarioE_def customerIdInVip_def vipCustomers_def builder_simps
        strippedLines_def stripLeading_def)

section \<open>Blank detection in SELECT (C10)\<close>

text \<open>
  C10. In a SELECT with a non-empty table, whatever the table is, \<^verbatim>\<open>selectColumns\<close> made of
  whitespace only is rendered as \<^verbatim>\<open>*\<close> (and trimmed otherwise), while the table is never
  trimmed: a table made of whitespace only counts as filled. The result is not the
  table-name placeholder but \<^verbatim>\<open>SELECT\<close> and the columns, a line feed, the indent, \<^verbatim>\<open>FROM \<close>
  and the table as it is, followed by the joins, the WHERE clause, ORDER BY and LIMIT.
\<close>

theorem blank_detection_asymmetry:
  assumes "operation node = SELECT" and "table node \<noteq> []"
  shows "buildSQL node depth =
      (case buildWhereClause (conditions node) (subQueries node) depth
              (repeat2 depth) (repeat2 (depth + 1)) of
         Inl e \<Rightarrow> Inl e
       | Inr wh \<Rightarrow>
           Inr (''SELECT ''
                @ (if \<forall>ch\<in>set (selectColumns node). isWhiteSpace ch then ''*''
                   else trim (selectColumns node))
                @ [newline] @ repeat2 depth @ ''FROM '' @ table node
                @ appendJoins [] (repeat2 depth) (joins node) @ wh
                @ appendOrderLimit [] (repeat2 depth) node))
    \<and> buildSQL node depth \<noteq> Inr (repeat2 depth @ ''-- Please fill in the table name'')"
proof -
  let ?wh = "buildWhereClause (conditions node) (subQueries node) depth
              (repeat2 depth) (repeat2 (depth + 1))"
  let ?cols = "if \<forall>ch\<in>set (selectColumns node). isWhiteSpace ch then ''*''
               else trim (selectColumns node)"
  have eq: "buildSQL node depth =
      (case ?wh of
         Inl e \<Rightarrow> Inl e
       | Inr wh \<Rightarrow>
           Inr (''SELECT '' @ ?cols @ [newline] @ repeat2 depth @ ''FROM '' @ table node
                @ appendJoins [] (repeat2 depth) (joins node) @ wh
                @ appendOrderLimit [] (repeat2 depth) node))"
    using assms(1,2) trim_Nil_iff [of "selectColumns node"]
    by (auto simp: buildSQL.simps select_text appendJoins_concat [of "[]"] split: sum.splits)
  have "buildSQL node depth \<noteq> Inr (repeat2 depth @ ''-- Please fill in the table name'')"
  proof (cases ?wh)
    case (Inl e)
    then show ?thesis by (simp add: eq)
  next
    case (Inr wh)
    show ?thesis
      using Inr by (simp add: eq table_placeholder_not_S)
  qed
  with eq show ?thesis by simp
qed

theorem blank_detection_asymmetry_witness:
  "buildSQL blankColumnsFromUsers 0 = Inr (''SELECT *'' @ [newline] @ ''FROM users;'')
   \<and> buildSQL blankSelect 1 = Inr (''SELECT *'' @ [newline] @ ''  FROM   ;'')"
  using blank_detection_asymmetry [of blankColumnsFromUsers 0]
    blank_detection_asymmetry [of blankSelect 1]
  by (simp add: blankColumnsFromUsers_def blankSelect_def isWhiteSpace_def
        buildWhereClause.simps repeat2_def appendJoins_def appendOrderLimit_def)

end
